theory Spec2Isabelle
  imports Complex_Main "HOL-Library.AList"
begin

section \<open>Python values and exceptions\<close>

text \<open>
  The generator \<^verbatim>\<open>dev/generate-tests.py\<close> works on values loaded from JSON (the fixture
  corpus), on the accumulators it hands to the reference callable, and on the dense lists
  it rebuilds from them. Floats are kept exact; only their comparison with integers and
  their runtime type are used by the code embedded here.
\<close>

datatype pyfloat = Finite rat | PosInf | NegInf | NaN

datatype pyval =
    VNone
  | VBool bool
  | VInt int
  | VFloat pyfloat
  | VStr string
  | VList "pyval list"
  | VDict "(int \<times> pyval) list"
  | VObj "(string \<times> pyval) list"

text \<open>
  \<open>VDict\<close> is a dict with integer keys (an output accumulator, written by index),
  \<open>VObj\<close> a dict with string keys (a JSON object). Both are association lists in
  insertion order; a key is looked up with \<open>map_of\<close> and the keys are read without
  duplicates.
\<close>

datatype pyerr =
    KeyError | IndexError | TypeError | ValueError | AssertionError
  | UnboundLocalError | StopIteration | OtherError

type_synonym bindings = "(string \<times> pyval) list"

definition bind_err :: "pyerr + 'a \<Rightarrow> ('a \<Rightarrow> pyerr + 'b) \<Rightarrow> pyerr + 'b" where
  "bind_err m f = (case m of Inl e \<Rightarrow> Inl e | Inr x \<Rightarrow> f x)"

fun mapM_err :: "('a \<Rightarrow> pyerr + 'b) \<Rightarrow> 'a list \<Rightarrow> pyerr + 'b list" where
  "mapM_err f [] = Inr []"
| "mapM_err f (x # xs) =
     bind_err (f x) (\<lambda>y. bind_err (mapM_err f xs) (\<lambda>ys. Inr (y # ys)))"

definition getitem :: "('k \<times> 'v) list \<Rightarrow> 'k \<Rightarrow> pyerr + 'v" where
  "getitem d k = (case map_of d k of None \<Rightarrow> Inl KeyError | Some v \<Rightarrow> Inr v)"

definition dict_keys :: "('k \<times> 'v) list \<Rightarrow> 'k list" where
  "dict_keys d = remdups (map fst d)"

text \<open>\<^verbatim>\<open>sub in s\<close> on strings.\<close>

fun startswith :: "string \<Rightarrow> string \<Rightarrow> bool" where
  "startswith s [] = True"
| "startswith [] (c # cs) = False"
| "startswith (x # xs) (c # cs) = (x = c \<and> startswith xs cs)"

fun py_in :: "string \<Rightarrow> string \<Rightarrow> bool" where
  "py_in sub [] = (sub = [])"
| "py_in sub (x # xs) = (startswith (x # xs) sub \<or> py_in sub xs)"

text \<open>\<^verbatim>\<open>len(v)\<close>.\<close>

fun py_len :: "pyval \<Rightarrow> pyerr + nat" where
  "py_len (VList xs) = Inr (length xs)"
| "py_len (VStr s) = Inr (length s)"
| "py_len (VDict d) = Inr (length (dict_keys d))"
| "py_len (VObj d) = Inr (length (dict_keys d))"
| "py_len _ = Inl TypeError"

section \<open>Placeholders and the reconstruction of dense outputs\<close>

text \<open>
  \<^verbatim>\<open>
  def gettypeval(typename):
      if "int" in typename:
          typeval = 123
      elif "bool" in typename:
          typeval = True
      elif "double" in typename or "float" in typename:
          typeval = 123.0
      else:
          raise ValueError("Unknown type encountered")
      return typeval
  \<close>
\<close>

definition gettypeval :: "string \<Rightarrow> pyerr + pyval" where
  "gettypeval typename =
     (if py_in ''int'' typename then Inr (VInt 123)
      else if py_in ''bool'' typename then Inr (VBool True)
      else if py_in ''double'' typename \<or> py_in ''float'' typename
        then Inr (VFloat (Finite 123))
      else Inl ValueError)"

text \<open>
  \<^verbatim>\<open>
  def dicttolist(self, outputdict, typename):
      typeval = gettypeval(typename)
      vallist = []
      count = 0
      for num in sorted(outputdict):
          if num == count:
              vallist.append(outputdict[num])
          else:
              while num != count:
                  count += 1
                  vallist.append(typeval)
              vallist.append(outputdict[num])
          count += 1
      return vallist
  \<close>
  The inner \<^verbatim>\<open>while\<close> does not end when \<^verbatim>\<open>num < count\<close>, which a negative key
  brings about: it is a partial function, \<open>None\<close> when it runs forever.
\<close>

partial_function (option) fill_gap ::
  "int \<Rightarrow> int \<Rightarrow> pyval \<Rightarrow> pyval list \<Rightarrow> (int \<times> pyval list) option" where
  "fill_gap num count typeval vallist =
     (if num \<noteq> count then fill_gap num (count + 1) typeval (vallist @ [typeval])
      else Some (count, vallist))"

declare fill_gap.simps [code]

fun dicttolist_loop ::
  "(int \<times> pyval) list \<Rightarrow> int list \<Rightarrow> pyval \<Rightarrow> int \<Rightarrow> pyval list
     \<Rightarrow> (pyerr + pyval list) option" where
  "dicttolist_loop outputdict [] typeval count vallist = Some (Inr vallist)"
| "dicttolist_loop outputdict (num # nums) typeval count vallist =
     (if num = count then
        (case getitem outputdict num of
           Inl e \<Rightarrow> Some (Inl e)
         | Inr v \<Rightarrow> dicttolist_loop outputdict nums typeval (count + 1) (vallist @ [v]))
      else
        (case fill_gap num count typeval vallist of
           None \<Rightarrow> None
         | Some (count', vallist') \<Rightarrow>
             (case getitem outputdict num of
                Inl e \<Rightarrow> Some (Inl e)
              | Inr v \<Rightarrow>
                  dicttolist_loop outputdict nums typeval (count' + 1) (vallist' @ [v]))))"

text \<open>
  The callers assert that \<^verbatim>\<open>outputdict\<close> is a dict. On a dict with string keys
  \<^verbatim>\<open>sorted\<close> succeeds and \<^verbatim>\<open>num == count\<close> is false for every key, so the inner
  loop never ends unless there is no key at all.
\<close>

definition dicttolist :: "pyval \<Rightarrow> string \<Rightarrow> (pyerr + pyval list) option" where
  "dicttolist outputdict typename =
     (case gettypeval typename of
        Inl e \<Rightarrow> Some (Inl e)
      | Inr typeval \<Rightarrow>
          (case outputdict of
             VDict d \<Rightarrow> dicttolist_loop d (sort (dict_keys d)) typeval 0 []
           | VObj d \<Rightarrow> (if d = [] then Some (Inr []) else None)
           | _ \<Rightarrow> Some (Inl TypeError)))"

text \<open>
  \<^verbatim>\<open>
  def getdummyvalue(self, typename, length):
      return [gettypeval(typename)] * length
  \<close>
\<close>

definition getdummyvalue :: "string \<Rightarrow> nat \<Rightarrow> pyerr + pyval" where
  "getdummyvalue typename len =
     bind_err (gettypeval typename) (\<lambda>typeval. Inr (VList (replicate len typeval)))"

text \<open>The dense list read back as a mapping from each index to the value there.\<close>

definition enumerate_dict :: "pyval list \<Rightarrow> (int \<times> pyval) list" where
  "enumerate_dict xs = zip (map int [0..<length xs]) xs"

text \<open>
  What the specification says the reconstruction returns: the value written at each index
  up to the greatest key, the placeholder where nothing was written.
\<close>

definition dense_upto :: "(int \<times> pyval) list \<Rightarrow> pyval \<Rightarrow> int \<Rightarrow> pyval list" where
  "dense_upto d typeval m =
     map (\<lambda>i. case map_of d i of Some v \<Rightarrow> v | None \<Rightarrow> typeval) [0..m]"

section \<open>Arguments, test cases and the validators\<close>

text \<open>
  \<^verbatim>\<open>
  class Argument:
      __slots__ = ("name", "typename", "direction", "role")
  \<close>
\<close>

record argument =
  arg_name :: string
  arg_typename :: string
  arg_direction :: string
  arg_role :: string

text \<open>
  The dict \<^verbatim>\<open>tempdict\<close> of \<^verbatim>\<open>gettests\<close>: the key \<^verbatim>\<open>"outargs"\<close> is present only
  when the reference callable returned.
\<close>

record testcase =
  inargs :: bindings
  outargs :: "bindings option"
  success :: bool

text \<open>
  \<^verbatim>\<open>isinstance(v, type(typeval))\<close>: \<^verbatim>\<open>bool\<close> is a subclass of \<^verbatim>\<open>int\<close>.
\<close>

fun py_isinstance_of :: "pyval \<Rightarrow> pyval \<Rightarrow> bool" where
  "py_isinstance_of (VInt _) (VInt _) = True"
| "py_isinstance_of (VBool _) (VInt _) = True"
| "py_isinstance_of (VBool _) (VBool _) = True"
| "py_isinstance_of (VFloat _) (VFloat _) = True"
| "py_isinstance_of (VStr _) (VStr _) = True"
| "py_isinstance_of VNone VNone = True"
| "py_isinstance_of (VList _) (VList _) = True"
| "py_isinstance_of (VDict _) (VDict _) = True"
| "py_isinstance_of (VObj _) (VDict _) = True"
| "py_isinstance_of (VDict _) (VObj _) = True"
| "py_isinstance_of (VObj _) (VObj _) = True"
| "py_isinstance_of _ _ = False"

text \<open>
  \<^verbatim>\<open>
  def typevalidates(self, testdict, arglist):
      for arg in arglist:
          if isinstance(testdict[arg.name], list):
              if testdict[arg.name] == []:
                  return False
              if not isinstance(
                  testdict[arg.name][0], type(gettypeval(arg.typename))
              ):
                  return False
          else:
              if not isinstance(testdict[arg.name], type(gettypeval(arg.typename))):
                  return False
      return True
  \<close>
\<close>

fun typevalidates :: "bindings \<Rightarrow> argument list \<Rightarrow> pyerr + bool" where
  "typevalidates testdict [] = Inr True"
| "typevalidates testdict (arg # arglist) =
     (case getitem testdict (arg_name arg) of
        Inl e \<Rightarrow> Inl e
      | Inr (VList []) \<Rightarrow> Inr False
      | Inr (VList (x # xs)) \<Rightarrow>
          (case gettypeval (arg_typename arg) of
             Inl e \<Rightarrow> Inl e
           | Inr typeval \<Rightarrow>
               if \<not> py_isinstance_of x typeval then Inr False
               else typevalidates testdict arglist)
      | Inr v \<Rightarrow>
          (case gettypeval (arg_typename arg) of
             Inl e \<Rightarrow> Inl e
           | Inr typeval \<Rightarrow>
               if \<not> py_isinstance_of v typeval then Inr False
               else typevalidates testdict arglist))"

text \<open>Iterating a value, and \<^verbatim>\<open>n < 0\<close>.\<close>

fun py_iter :: "pyval \<Rightarrow> pyerr + pyval list" where
  "py_iter (VList xs) = Inr xs"
| "py_iter (VStr s) = Inr (map (\<lambda>c. VStr [c]) s)"
| "py_iter (VDict d) = Inr (map VInt (dict_keys d))"
| "py_iter (VObj d) = Inr (map VStr (dict_keys d))"
| "py_iter _ = Inl TypeError"

fun py_lt_zero :: "pyval \<Rightarrow> pyerr + bool" where
  "py_lt_zero (VInt i) = Inr (i < 0)"
| "py_lt_zero (VBool b) = Inr False"
| "py_lt_zero (VFloat (Finite r)) = Inr (r < 0)"
| "py_lt_zero (VFloat NegInf) = Inr True"
| "py_lt_zero (VFloat _) = Inr False"
| "py_lt_zero _ = Inl TypeError"

text \<open>\<^verbatim>\<open>any(n < 0 for n in ns)\<close> stops at the first negative element.\<close>

fun any_lt_zero :: "pyval list \<Rightarrow> pyerr + bool" where
  "any_lt_zero [] = Inr False"
| "any_lt_zero (n # ns) =
     (case py_lt_zero n of
        Inl e \<Rightarrow> Inl e
      | Inr b \<Rightarrow> if b then Inr True else any_lt_zero ns)"

definition any_negative :: "pyval \<Rightarrow> pyerr + bool" where
  "any_negative v = bind_err (py_iter v) any_lt_zero"

text \<open>
  \<^verbatim>\<open>
  def validateoverflow(self, testvals):
      flag = True
      for arg in self.args:
          if "uint" in arg.typename and (
              any(n < 0 for n in testvals["inargs"][arg.name])
              or (
                  "outargs" in testvals.keys()
                  and arg.name in testvals["outargs"].keys()
                  and any(n < 0 for n in testvals["outargs"][arg.name])
              )
          ):
              flag = False
      return flag
  \<close>
\<close>

fun validateoverflow_loop :: "argument list \<Rightarrow> testcase \<Rightarrow> bool \<Rightarrow> pyerr + bool" where
  "validateoverflow_loop [] testvals flag = Inr flag"
| "validateoverflow_loop (arg # args) testvals flag =
     (if py_in ''uint'' (arg_typename arg) then
        (case bind_err (getitem (inargs testvals) (arg_name arg)) any_negative of
           Inl e \<Rightarrow> Inl e
         | Inr True \<Rightarrow> validateoverflow_loop args testvals False
         | Inr False \<Rightarrow>
             (case outargs testvals of
                None \<Rightarrow> validateoverflow_loop args testvals flag
              | Some outs \<Rightarrow>
                  (case map_of outs (arg_name arg) of
                     None \<Rightarrow> validateoverflow_loop args testvals flag
                   | Some ov \<Rightarrow>
                       (case any_negative ov of
                          Inl e \<Rightarrow> Inl e
                        | Inr True \<Rightarrow> validateoverflow_loop args testvals False
                        | Inr False \<Rightarrow> validateoverflow_loop args testvals flag))))
      else validateoverflow_loop args testvals flag)"

definition validateoverflow :: "argument list \<Rightarrow> testcase \<Rightarrow> pyerr + bool" where
  "validateoverflow args testvals = validateoverflow_loop args testvals True"

section \<open>The combination generator\<close>

text \<open>\<^verbatim>\<open>str(count)\<close> for a count that is never negative.\<close>

definition digit_char :: "nat \<Rightarrow> char" where
  "digit_char d = char_of (48 + d)"

function str_nat :: "nat \<Rightarrow> string" where
  "str_nat n = (if n < 10 then [digit_char n] else str_nat (n div 10) @ [digit_char (n mod 10)])"
  by pat_completeness auto
termination
  by (relation "measure id") auto

declare str_nat.simps [simp del]

text \<open>\<^verbatim>\<open>s.find(c)\<close>, \<^verbatim>\<open>s[:k]\<close> and \<^verbatim>\<open>s[k:]\<close>; a negative bound counts from the end.\<close>

fun py_find :: "string \<Rightarrow> char \<Rightarrow> int" where
  "py_find [] c = - 1"
| "py_find (x # xs) c =
     (if x = c then 0 else (let r = py_find xs c in if r < 0 then - 1 else r + 1))"

definition slice_to :: "string \<Rightarrow> int \<Rightarrow> string" where
  "slice_to s k = (if k < 0 then take (nat (int (length s) + k)) s else take (nat k) s)"

definition slice_from :: "string \<Rightarrow> int \<Rightarrow> string" where
  "slice_from s k = (if k < 0 then drop (nat (int (length s) + k)) s else drop (nat k) s)"

text \<open>\<^verbatim>\<open>v[x]\<close> for \<^verbatim>\<open>x\<close> in \<^verbatim>\<open>range(len(v))\<close>, and \<^verbatim>\<open>v[role]\<close> for a string.\<close>

fun getitem_index :: "pyval \<Rightarrow> nat \<Rightarrow> pyerr + pyval" where
  "getitem_index (VList xs) x = (if x < length xs then Inr (xs ! x) else Inl IndexError)"
| "getitem_index (VStr s) x = (if x < length s then Inr (VStr [s ! x]) else Inl IndexError)"
| "getitem_index (VDict d) x = getitem d (int x)"
| "getitem_index (VObj d) x = Inl KeyError"
| "getitem_index _ x = Inl TypeError"

fun getitem_str :: "pyval \<Rightarrow> string \<Rightarrow> pyerr + pyval" where
  "getitem_str (VObj d) k = getitem d k"
| "getitem_str (VDict d) k = Inl KeyError"
| "getitem_str _ k = Inl TypeError"

text \<open>
  \<^verbatim>\<open>
  for x in range(len(testdata[pseudogroup])):
      funcpassdict[arg.name].append(testdata[pseudogroup][x][role])
  \<close>
\<close>

definition role_values :: "bindings \<Rightarrow> string \<Rightarrow> string \<Rightarrow> pyerr + pyval list" where
  "role_values testdata pseudogroup role =
     bind_err (getitem testdata pseudogroup) (\<lambda>rows.
     bind_err (py_len rows) (\<lambda>n.
       mapM_err (\<lambda>x. bind_err (getitem_index rows x) (\<lambda>inst. getitem_str inst role))
         [0..<n]))"

text \<open>
  \<^verbatim>\<open>
  if group not in testdata.keys() and group[:-1] in testdata.keys():
      pseudogroup = copy.copy(group[:-1])
  elif group in testdata.keys():
      pseudogroup = copy.copy(group)
  \<close>
  \<^verbatim>\<open>pseudogroup\<close> is a local of \<^verbatim>\<open>gettests\<close>: when neither branch is taken it keeps
  the value an earlier argument gave it, and is unbound if there was none.
\<close>

definition choose_pseudogroup :: "bindings \<Rightarrow> string \<Rightarrow> string option \<Rightarrow> string option" where
  "choose_pseudogroup testdata grp pseudogroup =
     (if grp \<notin> set (dict_keys testdata) \<and> slice_to grp (- 1) \<in> set (dict_keys testdata)
        then Some (slice_to grp (- 1))
      else if grp \<in> set (dict_keys testdata) then Some grp
      else pseudogroup)"

text \<open>
  The first loop of \<^verbatim>\<open>gettests\<close>:
  \<^verbatim>\<open>
  for arg in self.args:
      funcpassdict[arg.name] = []
      if arg.role == "default":
          group = str(count)
          assert group not in instancedict.keys()
          instancedict[group] = [arg.name]
          if arg.direction == "out":
              funcpassdict[arg.name].append({})
          else:
              funcpassdict[arg.name].append(testdata["num"])
          assert len(funcpassdict[arg.name]) == 1
          count += 1
      else:
          group = arg.role[: arg.role.find("-")]
          if group not in instancedict.keys():
              instancedict[group] = []
          instancedict[group].append(arg.name)
          if group not in testdata.keys() and group[:-1] in testdata.keys():
              pseudogroup = copy.copy(group[:-1])
          elif group in testdata.keys():
              pseudogroup = copy.copy(group)
          role = pseudogroup + arg.role[arg.role.find("-") :]
          for x in range(len(testdata[pseudogroup])):
              funcpassdict[arg.name].append(testdata[pseudogroup][x][role])
  \<close>
  The dicts are association lists in insertion order; \<open>AList.update\<close> overwrites the
  value of a key that is there and appends a new key at the end. The variable
  \<^verbatim>\<open>group\<close> is \<open>grp\<close> here.
\<close>

fun bind_args ::
  "bindings \<Rightarrow> argument list \<Rightarrow> (string \<times> string list) list \<Rightarrow> (string \<times> pyval list) list
     \<Rightarrow> nat \<Rightarrow> string option
     \<Rightarrow> pyerr + ((string \<times> string list) list \<times> (string \<times> pyval list) list)" where
  "bind_args testdata [] instancedict funcpassdict count pseudogroup =
     Inr (instancedict, funcpassdict)"
| "bind_args testdata (arg # args) instancedict funcpassdict count pseudogroup =
     (if arg_role arg = ''default'' then
        (if str_nat count \<in> set (map fst instancedict) then Inl AssertionError
         else if arg_direction arg = ''out'' then
           bind_args testdata args
             (AList.update (str_nat count) [arg_name arg] instancedict)
             (AList.update (arg_name arg) [VDict []] funcpassdict)
             (count + 1) pseudogroup
         else
           (case getitem testdata ''num'' of
              Inl e \<Rightarrow> Inl e
            | Inr num \<Rightarrow>
                bind_args testdata args
                  (AList.update (str_nat count) [arg_name arg] instancedict)
                  (AList.update (arg_name arg) [num] funcpassdict)
                  (count + 1) pseudogroup))
      else
        (let grp = slice_to (arg_role arg) (py_find (arg_role arg) CHR ''-'');
             names = (case map_of instancedict grp of None \<Rightarrow> [] | Some ns \<Rightarrow> ns);
             pseudogroup' = choose_pseudogroup testdata grp pseudogroup
         in case pseudogroup' of
              None \<Rightarrow> Inl UnboundLocalError
            | Some pg \<Rightarrow>
                (case role_values testdata pg
                        (pg @ slice_from (arg_role arg) (py_find (arg_role arg) CHR ''-'')) of
                   Inl e \<Rightarrow> Inl e
                 | Inr vals \<Rightarrow>
                     bind_args testdata args
                       (AList.update grp (names @ [arg_name arg]) instancedict)
                       (AList.update (arg_name arg) vals funcpassdict)
                       count pseudogroup')))"

text \<open>\<^verbatim>\<open>zip(*temp)\<close> and \<^verbatim>\<open>itertools.product(*combinations)\<close>.\<close>

fun zip_star :: "'a list list \<Rightarrow> 'a list list" where
  "zip_star [] = []"
| "zip_star [xs] = map (\<lambda>x. [x]) xs"
| "zip_star (xs # xss) = map (\<lambda>(x, t). x # t) (zip xs (zip_star xss))"

fun itertools_product :: "'a list list \<Rightarrow> 'a list list" where
  "itertools_product [] = [[]]"
| "itertools_product (pool # pools) =
     concat (map (\<lambda>x. map ((#) x) (itertools_product pools)) pool)"

text \<open>
  \<^verbatim>\<open>
  instancedictlist = list(instancedict.keys())

  combinations = []
  for name in instancedictlist:
      temp = []
      for arg in instancedict[name]:
          temp.append(funcpassdict[arg])
      combinations.append(zip(*temp))
  \<close>
\<close>

definition group_instances ::
  "(string \<times> string list) list \<Rightarrow> (string \<times> pyval list) list \<Rightarrow> string
     \<Rightarrow> pyerr + pyval list list" where
  "group_instances instancedict funcpassdict name =
     bind_err (getitem instancedict name) (\<lambda>args.
     bind_err (mapM_err (getitem funcpassdict) args) (\<lambda>temp. Inr (zip_star temp)))"

definition getcombinations ::
  "argument list \<Rightarrow> bindings
     \<Rightarrow> pyerr + ((string \<times> string list) list \<times> pyval list list list)" where
  "getcombinations args testdata =
     bind_err (bind_args testdata args [] [] 0 None) (\<lambda>(instancedict, funcpassdict).
     bind_err (mapM_err (group_instances instancedict funcpassdict) (map fst instancedict))
       (\<lambda>combinations. Inr (instancedict, itertools_product combinations)))"

text \<open>
  \<^verbatim>\<open>
  origtemp = OrderedDict()
  for groupName, t in zip(instancedictlist, x):
      for key, value in zip(instancedict[groupName], t):
          origtemp[key] = value
  \<close>
\<close>

fun make_origtemp ::
  "(string \<times> string list) list \<Rightarrow> (string \<times> pyval list) list \<Rightarrow> bindings
     \<Rightarrow> pyerr + bindings" where
  "make_origtemp instancedict [] origtemp = Inr origtemp"
| "make_origtemp instancedict ((groupName, t) # rest) origtemp =
     (case getitem instancedict groupName of
        Inl e \<Rightarrow> Inl e
      | Inr keys \<Rightarrow>
          make_origtemp instancedict rest
            (fold (\<lambda>(key, value). AList.update key value) (zip keys t) origtemp))"

section \<open>The oracle executor\<close>

text \<open>
  The reference callable \<^verbatim>\<open>funcPy\<close> receives the deep copy \<^verbatim>\<open>temp\<close> of the bindings
  by keyword. It returns or raises with the objects of \<^verbatim>\<open>temp\<close> possibly mutated in
  place, or it does not return at all. \<open>Raises ValueError\<close> is the exception that
  \<^verbatim>\<open>gettests\<close> catches.
\<close>

datatype outcome = Returns bindings | Raises pyerr bindings | Hangs

type_synonym callable = "bindings \<Rightarrow> outcome"

text \<open>
  The body of the \<^verbatim>\<open>try\<close> after the call:
  \<^verbatim>\<open>
  for arg in self.args:
      if arg.direction == "out":
          assert isinstance(temp[arg.name], dict)
          temparglist = self.dicttolist(temp[arg.name], arg.typename)
          intests[arg.name] = self.getdummyvalue(
              arg.typename, len(temparglist)
          )
          outtests[arg.name] = temparglist
      else:
          intests[arg.name] = temp[arg.name]
  \<close>
  An exception leaves \<^verbatim>\<open>intests\<close> as far as it was filled, which the handler goes on
  from.
\<close>

fun is_dict :: "pyval \<Rightarrow> bool" where
  "is_dict (VDict _) = True"
| "is_dict (VObj _) = True"
| "is_dict _ = False"

fun success_args ::
  "argument list \<Rightarrow> bindings \<Rightarrow> bindings \<Rightarrow> bindings
     \<Rightarrow> ((pyerr \<times> bindings) + (bindings \<times> bindings)) option" where
  "success_args [] temp intests outtests = Some (Inr (intests, outtests))"
| "success_args (arg # args) temp intests outtests =
     (case getitem temp (arg_name arg) of
        Inl e \<Rightarrow> Some (Inl (e, intests))
      | Inr v \<Rightarrow>
          if arg_direction arg = ''out'' then
            (if \<not> is_dict v then Some (Inl (AssertionError, intests))
             else
               (case dicttolist v (arg_typename arg) of
                  None \<Rightarrow> None
                | Some (Inl e) \<Rightarrow> Some (Inl (e, intests))
                | Some (Inr temparglist) \<Rightarrow>
                    (case getdummyvalue (arg_typename arg) (length temparglist) of
                       Inl e \<Rightarrow> Some (Inl (e, intests))
                     | Inr dummy \<Rightarrow>
                         success_args args temp
                           (AList.update (arg_name arg) dummy intests)
                           (AList.update (arg_name arg) (VList temparglist) outtests))))
          else success_args args temp (AList.update (arg_name arg) v intests) outtests)"

text \<open>
  The handler:
  \<^verbatim>\<open>
  except ValueError:
      for arg in self.args:
          if arg.direction == "out":
              intests[arg.name] = self.getdummyvalue(
                  arg.typename, len(temp[arg.name])
              )
          else:
              intests[arg.name] = temp[arg.name]
      tempdict["success"] = False
  \<close>
\<close>

fun failure_args :: "argument list \<Rightarrow> bindings \<Rightarrow> bindings \<Rightarrow> pyerr + bindings" where
  "failure_args [] temp intests = Inr intests"
| "failure_args (arg # args) temp intests =
     (case getitem temp (arg_name arg) of
        Inl e \<Rightarrow> Inl e
      | Inr v \<Rightarrow>
          if arg_direction arg = ''out'' then
            (case py_len v of
               Inl e \<Rightarrow> Inl e
             | Inr n \<Rightarrow>
                 (case getdummyvalue (arg_typename arg) n of
                    Inl e \<Rightarrow> Inl e
                  | Inr dummy \<Rightarrow>
                      failure_args args temp (AList.update (arg_name arg) dummy intests)))
          else failure_args args temp (AList.update (arg_name arg) v intests))"

text \<open>
  \<^verbatim>\<open>
  if self.typevalidates(
      tempdict["inargs"], self.args
  ) and self.validateoverflow(tempdict):
      allvals.append(tempdict)
  \<close>
  The result is the test case when it is kept and \<open>None\<close> when it is dropped.
\<close>

definition validate :: "argument list \<Rightarrow> testcase \<Rightarrow> pyerr + testcase option" where
  "validate args tempdict =
     (case typevalidates (inargs tempdict) args of
        Inl e \<Rightarrow> Inl e
      | Inr False \<Rightarrow> Inr None
      | Inr True \<Rightarrow>
          (case validateoverflow args tempdict of
             Inl e \<Rightarrow> Inl e
           | Inr False \<Rightarrow> Inr None
           | Inr True \<Rightarrow> Inr (Some tempdict)))"

definition handle_ValueError ::
  "argument list \<Rightarrow> bindings \<Rightarrow> bindings \<Rightarrow> pyerr + testcase option" where
  "handle_ValueError args temp intests =
     (case failure_args args temp intests of
        Inl e \<Rightarrow> Inl e
      | Inr intests' \<Rightarrow>
          validate args \<lparr>inargs = intests', outargs = None, success = False\<rparr>)"

text \<open>
  One combination, from the call on: the record \<^verbatim>\<open>tempdict\<close> that is built, then
  validated.
\<close>

definition execute :: "argument list \<Rightarrow> callable \<Rightarrow> bindings \<Rightarrow> (pyerr + testcase option) option" where
  "execute args funcPy origtemp =
     (case funcPy origtemp of
        Hangs \<Rightarrow> None
      | Raises e temp \<Rightarrow>
          if e = ValueError then Some (handle_ValueError args temp []) else Some (Inl e)
      | Returns temp \<Rightarrow>
          (case success_args args temp [] [] of
             None \<Rightarrow> None
           | Some (Inl (e, intests)) \<Rightarrow>
               if e = ValueError then Some (handle_ValueError args temp intests)
               else Some (Inl e)
           | Some (Inr (intests, outtests)) \<Rightarrow>
               Some (validate args
                 \<lparr>inargs = intests, outargs = Some outtests, success = True\<rparr>)))"

text \<open>
  The loop \<^verbatim>\<open>for x in product(*combinations)\<close> of \<^verbatim>\<open>gettests\<close>, with the list
  \<^verbatim>\<open>allvals\<close> it appends to.
\<close>

fun gettests_loop ::
  "argument list \<Rightarrow> callable \<Rightarrow> (string \<times> string list) list \<Rightarrow> pyval list list list
     \<Rightarrow> testcase list \<Rightarrow> (pyerr + testcase list) option" where
  "gettests_loop args funcPy instancedict [] allvals = Some (Inr allvals)"
| "gettests_loop args funcPy instancedict (x # xs) allvals =
     (case make_origtemp instancedict (zip (map fst instancedict) x) [] of
        Inl e \<Rightarrow> Some (Inl e)
      | Inr origtemp \<Rightarrow>
          (case execute args funcPy origtemp of
             None \<Rightarrow> None
           | Some (Inl e) \<Rightarrow> Some (Inl e)
           | Some (Inr None) \<Rightarrow> gettests_loop args funcPy instancedict xs allvals
           | Some (Inr (Some tempdict)) \<Rightarrow>
               gettests_loop args funcPy instancedict xs (allvals @ [tempdict])))"

definition gettests :: "argument list \<Rightarrow> bindings \<Rightarrow> callable \<Rightarrow> (pyerr + testcase list) option" where
  "gettests args testdata funcPy =
     (case getcombinations args testdata of
        Inl e \<Rightarrow> Some (Inl e)
      | Inr (instancedict, xs) \<Rightarrow> gettests_loop args funcPy instancedict xs [])"

section \<open>Specifications\<close>

definition no_role_kernels :: "string list" where
  "no_role_kernels =
     [''awkward_NumpyArray_sort_asstrings_uint8'', ''awkward_argsort'', ''awkward_sort'']"

text \<open>
  An entry of \<^verbatim>\<open>spec["args"]\<close> as the kernel specification file gives it: the keys
  \<^verbatim>\<open>name\<close>, \<^verbatim>\<open>type\<close> and \<^verbatim>\<open>dir\<close>, and \<^verbatim>\<open>role\<close> when the argument has one.
\<close>

record argspec =
  as_name :: string
  as_type :: string
  as_dir :: string
  as_role :: "string option"

record childfunc =
  cf_name :: string
  cf_args :: "argspec list"

record kernel_specification =
  templatized_kernel_name :: string
  spec_name :: string
  spec_args :: "argument list"
  tests :: "testcase list"

text \<open>
  \<^verbatim>\<open>
  def __init__(self, templatized_kernel_name, spec, testdata, blacklisted):
      self.templatized_kernel_name = templatized_kernel_name
      self.name = spec["name"]
      self.args = []
      for arg in spec["args"]:
          self.args.append(
              Argument(
                  arg["name"],
                  arg["type"],
                  arg["dir"],
                  arg["role"] if "role" in arg.keys() else "default",
              )
          )
      if blacklisted:
          self.tests = []
      elif templatized_kernel_name in no_role_kernels:
          self.tests = []
      else:
          self.tests = self.gettests(testdata)
  \<close>
  \<open>funcPy\<close> is what \<^verbatim>\<open>eval(self.name, globals(), locals())\<close> finds.
\<close>

definition make_args :: "argspec list \<Rightarrow> argument list" where
  "make_args specargs =
     map (\<lambda>arg. \<lparr>arg_name = as_name arg, arg_typename = as_type arg,
                  arg_direction = as_dir arg,
                  arg_role = (case as_role arg of Some r \<Rightarrow> r | None \<Rightarrow> ''default'')\<rparr>)
       specargs"

definition Specification ::
  "string \<Rightarrow> childfunc \<Rightarrow> bindings \<Rightarrow> bool \<Rightarrow> callable \<Rightarrow> (pyerr + kernel_specification) option" where
  "Specification tkn spec testdata blacklisted funcPy =
     (let self = \<lparr>templatized_kernel_name = tkn, spec_name = cf_name spec,
                   spec_args = make_args (cf_args spec), tests = []\<rparr>
      in if blacklisted then Some (Inr (self\<lparr>tests := []\<rparr>))
         else if tkn \<in> set no_role_kernels then Some (Inr (self\<lparr>tests := []\<rparr>))
         else
           (case gettests (spec_args self) testdata funcPy of
              None \<Rightarrow> None
            | Some (Inl e) \<Rightarrow> Some (Inl e)
            | Some (Inr ts) \<Rightarrow> Some (Inr (self\<lparr>tests := ts\<rparr>))))"

section \<open>The range validator of the unit-test path\<close>

text \<open>
  \<^verbatim>\<open>s.replace(old, new)\<close>, \<^verbatim>\<open>s.replace(old, new, 1)\<close>, \<^verbatim>\<open>s.rstrip(c)\<close> and
  \<^verbatim>\<open>s.endswith(suffix)\<close>. The callers of \<open>py_replace\<close> pass a non-empty \<open>old\<close>.
\<close>

function py_replace :: "string \<Rightarrow> string \<Rightarrow> string \<Rightarrow> string" where
  "py_replace old new s =
     (if old = [] \<or> s = [] then s
      else if startswith s old then new @ py_replace old new (drop (length old) s)
      else hd s # py_replace old new (tl s))"
  by pat_completeness auto
termination
  by (relation "measure (\<lambda>(old, new, s). length s)") auto

declare py_replace.simps [simp del]



definition endswith :: "string \<Rightarrow> string \<Rightarrow> bool" where
  "endswith s suffix = startswith (rev s) (rev suffix)"


definition gettypename :: "string \<Rightarrow> string" where
  "gettypename spectype =
     (let typename = py_replace '']'' [] (py_replace ''['' [] (py_replace ''List'' [] spectype))
      in if endswith typename ''_t'' then slice_to typename (- 2) else typename)"

text \<open>
  Modelled from the spec: numpy is not part of the repository. \<^verbatim>\<open>np.iinfo(dtype)\<close>
  gives the least and the greatest value of the integer type of that bit width, signed or
  unsigned, and raises for a name that is no integer type.
\<close>

definition np_iinfo :: "string \<Rightarrow> pyerr + (int \<times> int)" where
  "np_iinfo dtype =
     (if dtype = ''int8'' then Inr (- (2 ^ 7), 2 ^ 7 - 1)
      else if dtype = ''int16'' then Inr (- (2 ^ 15), 2 ^ 15 - 1)
      else if dtype = ''int32'' then Inr (- (2 ^ 31), 2 ^ 31 - 1)
      else if dtype = ''int64'' then Inr (- (2 ^ 63), 2 ^ 63 - 1)
      else if dtype = ''uint8'' then Inr (0, 2 ^ 8 - 1)
      else if dtype = ''uint16'' then Inr (0, 2 ^ 16 - 1)
      else if dtype = ''uint32'' then Inr (0, 2 ^ 32 - 1)
      else if dtype = ''uint64'' then Inr (0, 2 ^ 64 - 1)
      else Inl TypeError)"











fun lies_within :: "int \<Rightarrow> int \<Rightarrow> pyval \<Rightarrow> bool" where
  "lies_within lo hi (VInt i) = (lo \<le> i \<and> i \<le> hi)"
| "lies_within lo hi (VBool b) = (lo \<le> (if b then 1 else 0) \<and> (if b then 1 else 0) \<le> hi)"
| "lies_within lo hi (VFloat (Finite r)) = (of_int lo \<le> r \<and> r \<le> of_int hi)"
| "lies_within lo hi _ = False"





section \<open>Callables used as examples\<close>

text \<open>
  \<^verbatim>\<open>
  def mutates_then_raises(x, y):
      x[0] = 99
      y[0] = 7
      raise ValueError
  \<close>
  called with \<^verbatim>\<open>x\<close> bound to \<^verbatim>\<open>[1, 2]\<close>.
\<close>

definition mutates_then_raises :: callable where
  "mutates_then_raises temp =
     Raises ValueError
       (AList.update ''y'' (VDict [(0, VInt 7)])
         (AList.update ''x'' (VList [VInt 99, VInt 2]) temp))"

section \<open>Groups of one argument\<close>

text \<open>
  Every group of \<^verbatim>\<open>instancedict\<close> has one argument, and \<^verbatim>\<open>funcpassdict\<close> holds one
  value for it: what the first loop of \<^verbatim>\<open>gettests\<close> keeps true while the roles are
  \<^verbatim>\<open>default\<close>.
\<close>

definition singletons :: "(string \<times> string list) list \<Rightarrow> (string \<times> pyval list) list \<Rightarrow> bool" where
  "singletons instancedict funcpassdict \<longleftrightarrow>
     (\<forall>p\<in>set instancedict. \<exists>n v. snd p = [n] \<and> map_of funcpassdict n = Some [v])"

section \<open>The order of the groups and of the tests\<close>

text \<open>
  What the specification says of the order: the key of the group of each argument, in the
  order of declaration (the variable \<^verbatim>\<open>group\<close> of the first loop of \<^verbatim>\<open>gettests\<close>), a
  list of keys with each key at its first occurrence only, and what the body of the second
  loop of \<^verbatim>\<open>gettests\<close> does with one combination.
\<close>

fun group_keys :: "argument list \<Rightarrow> nat \<Rightarrow> string list" where
  "group_keys [] count = []"
| "group_keys (arg # args) count =
     (if arg_role arg = ''default'' then str_nat count # group_keys args (count + 1)
      else slice_to (arg_role arg) (py_find (arg_role arg) CHR ''-'') # group_keys args count)"

fun first_occurrences :: "'a list \<Rightarrow> 'a list" where
  "first_occurrences [] = []"
| "first_occurrences (k # ks) = k # filter (\<lambda>k'. k' \<noteq> k) (first_occurrences ks)"

definition run_combination ::
  "argument list \<Rightarrow> callable \<Rightarrow> (string \<times> string list) list \<Rightarrow> pyval list list
     \<Rightarrow> (pyerr + testcase option) option" where
  "run_combination args funcPy instancedict x =
     (case make_origtemp instancedict (zip (map fst instancedict) x) [] of
        Inl e \<Rightarrow> Some (Inl e)
      | Inr origtemp \<Rightarrow> execute args funcPy origtemp)"

section \<open>The order of the product and what is read of the corpus\<close>

text \<open>
  What the specification says of the order of a cartesian product: combination number
  \<open>k\<close> takes from each pool the element whose index is the digit of \<open>k\<close> in the mixed
  radix of the lengths of the pools, the first pool varying slowest.
\<close>

fun nth_combination :: "'a list list \<Rightarrow> nat \<Rightarrow> 'a list" where
  "nth_combination [] k = []"
| "nth_combination (pool # pools) k =
     pool ! (k div prod_list (map length pools))
       # nth_combination pools (k mod prod_list (map length pools))"

text \<open>
  The keys of the corpus that \<^verbatim>\<open>gettests\<close> looks up for a kernel: \<^verbatim>\<open>"num"\<close>, and for
  each argument with a role the variable \<^verbatim>\<open>group\<close> and \<^verbatim>\<open>group[:-1]\<close>. Two corpora
  agree on a list of keys when they hold the same value, or none, at each of them.
\<close>

definition consulted_keys :: "argument list \<Rightarrow> string list" where
  "consulted_keys args =
     ''num'' #
     concat (map (\<lambda>arg.
       if arg_role arg = ''default'' then []
       else [slice_to (arg_role arg) (py_find (arg_role arg) CHR ''-''),
             slice_to (slice_to (arg_role arg) (py_find (arg_role arg) CHR ''-'')) (- 1)]) args)"

definition agree_on :: "string list \<Rightarrow> bindings \<Rightarrow> bindings \<Rightarrow> bool" where
  "agree_on ks testdata testdata' = list_all (\<lambda>k. map_of testdata' k = map_of testdata k) ks"

text \<open>
  \<^verbatim>\<open>
  def returns_when_bound(**temp):
      if "a" not in temp:
          while True: pass
  \<close>
\<close>

definition returns_when_bound :: callable where
  "returns_when_bound temp = (if map_of temp ''a'' = None then Hangs else Returns temp)"

section \<open>The reconstruction is dense and idempotent\<close>


lemma fill_gap_le:
  "count \<le> num \<Longrightarrow>
   fill_gap num count tv vl = Some (num, vl @ replicate (nat (num - count)) tv)"
proof (induction "nat (num - count)" arbitrary: count vl)
  case 0
  then have "num = count" by simp
  then show ?case by (subst fill_gap.simps) simp
next
  case (Suc k)
  then have lt: "count < num" and k: "k = nat (num - (count + 1))" by linarith+
  have "fill_gap num (count + 1) tv (vl @ [tv])
          = Some (num, (vl @ [tv]) @ replicate (nat (num - (count + 1))) tv)"
    using Suc.hyps(1) [OF k] lt by simp
  moreover have "nat (num - count) = Suc (nat (num - (count + 1)))"
    using lt by linarith
  ultimately show ?case
    using lt by (subst fill_gap.simps) (simp add: replicate_app_Cons_same)
qed


lemma getitem_Some: "map_of d k = Some v \<Longrightarrow> getitem d k = Inr v"
  by (simp add: getitem_def)

lemma dicttolist_loop_dense:
  assumes "sorted nums" "distinct nums" "\<forall>k\<in>set nums. count \<le> k" "set nums \<subseteq> fst ` set d"
  shows "dicttolist_loop d nums tv count vl =
     Some (Inr (vl @ map (\<lambda>i. if i \<in> set nums then (case map_of d i of Some v \<Rightarrow> v | None \<Rightarrow> tv) else tv)
                       (case nums of [] \<Rightarrow> [] | _ \<Rightarrow> [count..last nums])))"
  using assms
proof (induction nums arbitrary: count vl)
  case Nil
  then show ?case by simp
next
  case (Cons num nums)
  let ?f = "\<lambda>S i. if i \<in> S then (case map_of d i of Some v \<Rightarrow> v | None \<Rightarrow> tv) else tv"
  from Cons.prems have le: "count \<le> num" by simp
  from Cons.prems obtain v where v: "map_of d num = Some v"
    by (metis (no_types, opaque_lifting) list.set_intros(1) subsetD weak_map_of_SomeI image_iff prod.collapse map_of_eq_None_iff not_Some_eq)
  have gt: "\<forall>k\<in>set nums. num + 1 \<le> k"
  proof
    fix k assume k: "k \<in> set nums"
    with Cons.prems(1) have "num \<le> k" by simp
    moreover from k Cons.prems(2) have "num \<noteq> k" by auto
    ultimately show "num + 1 \<le> k" by simp
  qed
  have IH: "dicttolist_loop d nums tv (num + 1) (vl @ replicate (nat (num - count)) tv @ [v])
     = Some (Inr ((vl @ replicate (nat (num - count)) tv @ [v]) @ map (?f (set nums))
                       (case nums of [] \<Rightarrow> [] | _ \<Rightarrow> [num + 1..last nums])))"
    using Cons.IH [of "num + 1"] Cons.prems gt by simp
  have step: "dicttolist_loop d (num # nums) tv count vl
      = dicttolist_loop d nums tv (num + 1) (vl @ replicate (nat (num - count)) tv @ [v])"
    using le getitem_Some [OF v] by (cases "num = count") (simp_all add: fill_gap_le)
  have lastge: "nums \<noteq> [] \<Longrightarrow> num + 1 \<le> last nums"
    using gt last_in_set by blast
  have seg: "map (?f (set (num # nums))) (case num # nums of [] \<Rightarrow> [] | _ \<Rightarrow> [count..last (num # nums)])
     = replicate (nat (num - count)) tv @ [v] @ map (?f (set nums)) (case nums of [] \<Rightarrow> [] | _ \<Rightarrow> [num + 1..last nums])"
  proof -
    have below: "map (?f (set (num # nums))) [count..num - 1] = replicate (nat (num - count)) tv"
    proof (rule nth_equalityI)
      show "length (map (?f (set (num # nums))) [count..num - 1]) = length (replicate (nat (num - count)) tv)"
        by simp
    next
      fix i assume "i < length (map (?f (set (num # nums))) [count..num - 1])"
      then have i: "count + int i \<le> num - 1" by simp
      then have "count + int i \<notin> set (num # nums)" using gt by auto
      then show "map (?f (set (num # nums))) [count..num - 1] ! i = replicate (nat (num - count)) tv ! i"
        using i by simp
    qed
    have above: "map (?f (set (num # nums))) [num + 1..k] = map (?f (set nums)) [num + 1..k]" for k
      by (rule map_cong) auto
    show ?thesis
    proof (cases nums)
      case Nil
      then show ?thesis using le below v upto_split3 [of count num num] by simp
    next
      case (Cons a as)
      then have "num \<le> last nums" using lastge by simp
      then show ?thesis using Cons le below above v upto_split3 [of count num "last nums"] by simp
    qed
  qed
  show ?case unfolding step IH seg by simp
qed



lemma sorted_last_Max:
  fixes ys :: "int list"
  assumes "sorted ys" "ys \<noteq> []"
  shows "last ys = Max (set ys)"
proof -
  have "\<forall>y\<in>set ys. y \<le> last ys"
    using assms by (induction ys) (auto simp: order_trans)
  then show ?thesis
    using assms(2) by (intro Max_eqI [symmetric]) auto
qed

lemma dicttolist_keys:
  assumes tv: "gettypeval typename = Inr typeval"
    and nonneg: "\<forall>k\<in>fst ` set d. 0 \<le> k"
  shows "dicttolist (VDict d) typename =
     Some (Inr (if d = [] then [] else dense_upto d typeval (Max (fst ` set d))))"
proof -
  let ?nums = "sort (dict_keys d)"
  have set_nums: "set ?nums = fst ` set d" by (simp add: dict_keys_def)
  have "dicttolist (VDict d) typename = dicttolist_loop d ?nums typeval 0 []"
    by (simp add: dicttolist_def tv)
  also have "\<dots> = Some (Inr ([] @ map (\<lambda>i. if i \<in> set ?nums then (case map_of d i of Some v \<Rightarrow> v | None \<Rightarrow> typeval) else typeval)
                       (case ?nums of [] \<Rightarrow> [] | _ \<Rightarrow> [0..last ?nums])))"
    using nonneg by (intro dicttolist_loop_dense) (simp_all add: dict_keys_def)
  also have "\<dots> = Some (Inr (if d = [] then [] else dense_upto d typeval (Max (fst ` set d))))"
  proof (cases "d = []")
    case True
    then show ?thesis by (simp add: dict_keys_def)
  next
    case False
    then have ne: "?nums \<noteq> []"
      by (metis set_nums empty_is_image set_empty)
    have last: "last ?nums = Max (fst ` set d)"
      using sorted_last_Max [of ?nums] ne set_nums by simp
    have f: "(\<lambda>i. if i \<in> set ?nums then (case map_of d i of Some v \<Rightarrow> v | None \<Rightarrow> typeval) else typeval)
          = (\<lambda>i. case map_of d i of Some v \<Rightarrow> v | None \<Rightarrow> typeval)"
    proof
      fix i
      show "(if i \<in> set ?nums then (case map_of d i of Some v \<Rightarrow> v | None \<Rightarrow> typeval) else typeval)
          = (case map_of d i of Some v \<Rightarrow> v | None \<Rightarrow> typeval)"
        unfolding set_nums by (force dest: map_of_SomeD split: option.splits)
    qed
    obtain a as where "?nums = a # as" using ne by (cases ?nums) auto
    then have "(case ?nums of [] \<Rightarrow> [] | _ \<Rightarrow> [0..last ?nums]) = [0..last ?nums]" by simp
    then show ?thesis using False by (simp only: f last dense_upto_def) simp
  qed
  finally show ?thesis .
qed

lemma map_of_enumerate:
  "i < length xs \<Longrightarrow> map_of (enumerate_dict xs) (int i) = Some (xs ! i)"
proof -
  assume i: "i < length xs"
  have "map_of (zip (map int [0..<length xs]) xs) (map int [0..<length xs] ! i) = Some (xs ! i)"
    by (rule map_of_zip_nth) (simp_all add: i distinct_map inj_on_def)
  then show ?thesis using i by (simp add: enumerate_dict_def)
qed

lemma dense_enumerate:
  "xs \<noteq> [] \<Longrightarrow> dense_upto (enumerate_dict xs) tv (int (length xs) - 1) = xs"
proof (rule nth_equalityI)
  assume "xs \<noteq> []"
  then show len: "length (dense_upto (enumerate_dict xs) tv (int (length xs) - 1)) = length xs"
    by (simp add: dense_upto_def)
  fix i assume "i < length (dense_upto (enumerate_dict xs) tv (int (length xs) - 1))"
  with len have i: "i < length xs" by simp
  then show "dense_upto (enumerate_dict xs) tv (int (length xs) - 1) ! i = xs ! i"
    by (simp add: dense_upto_def map_of_enumerate)
qed

lemma fst_enumerate: "fst ` set (enumerate_dict xs) = int ` {0..<length xs}"
proof -
  have "map fst (enumerate_dict xs) = map int [0..<length xs]"
    by (simp add: enumerate_dict_def)
  then have "set (map fst (enumerate_dict xs)) = set (map int [0..<length xs])" by simp
  then show ?thesis by simp
qed

lemma dicttolist_enumerate:
  assumes tv: "gettypeval typename = Inr typeval"
  shows "dicttolist (VDict (enumerate_dict xs)) typename = Some (Inr xs)"
proof (cases "xs = []")
  case True
  then show ?thesis using dicttolist_keys [OF tv, of "enumerate_dict xs"]
    by (simp add: enumerate_dict_def)
next
  case False
  have "int (length xs - 1) \<in> int ` {0..<length xs}"
    using False by (intro imageI) simp
  moreover have "int (length xs - 1) = int (length xs) - 1"
    using False by (cases xs) simp_all
  ultimately have "int (length xs) - 1 \<in> int ` {0..<length xs}" by simp
  then have "Max (int ` {0..<length xs}) = int (length xs) - 1"
    by (intro Max_eqI) auto
  moreover have "enumerate_dict xs \<noteq> []" using False by (simp add: enumerate_dict_def)
  ultimately show ?thesis
    using dicttolist_keys [OF tv, of "enumerate_dict xs"] False
    by (simp add: fst_enumerate dense_enumerate)
qed



text \<open>
  Claim C7. The reconstruction is idempotent: a dense list that it has produced, read as
  the mapping from each index to the value at that index and reconstructed again, is the
  same dense list.
\<close>

theorem dicttolist_idempotent:
  assumes "dicttolist outputdict typename = Some (Inr vallist)"
  shows "dicttolist (VDict (enumerate_dict vallist)) typename = Some (Inr vallist)"
proof (cases "gettypeval typename")
  case (Inl e)
  with assms show ?thesis by (simp add: dicttolist_def)
next
  case (Inr typeval)
  then show ?thesis by (rule dicttolist_enumerate)
qed

theorem dicttolist_idempotent_witness:
  "dicttolist (VDict [(2, VBool False)]) ''List[bool]''
     = Some (Inr [VBool True, VBool True, VBool False])
   \<and> dicttolist (VDict (enumerate_dict [VBool True, VBool True, VBool False])) ''List[bool]''
     = Some (Inr [VBool True, VBool True, VBool False])"
proof -
  have run: "dicttolist (VDict [(2, VBool False)]) ''List[bool]''
     = Some (Inr [VBool True, VBool True, VBool False])"
    by (simp add: dicttolist_def gettypeval_def dict_keys_def getitem_def fill_gap.simps)
  show ?thesis using dicttolist_idempotent [OF run] run by simp
qed


section \<open>Kernels without roles\<close>

text \<open>
  Claim C10. A kernel whose templatized name is one of
  \<^verbatim>\<open>awkward_NumpyArray_sort_asstrings_uint8\<close>, \<^verbatim>\<open>awkward_argsort\<close> and \<^verbatim>\<open>awkward_sort\<close>
  gets a Specification with an empty list of tests, whether or not it is blacklisted and
  whatever the fixture corpus holds.
\<close>

theorem no_role_kernels_have_no_tests:
  assumes "tkn \<in> set no_role_kernels"
  shows "Specification tkn spec testdata blacklisted funcPy
           = Some (Inr \<lparr>templatized_kernel_name = tkn, spec_name = cf_name spec,
                         spec_args = make_args (cf_args spec), tests = []\<rparr>)"
  using assms by (simp add: Specification_def Let_def)

theorem no_role_kernels_have_no_tests_witness:
  "Specification ''awkward_sort''
     \<lparr>cf_name = ''awkward_sort_int64'',
      cf_args = [\<lparr>as_name = ''x'', as_type = ''int64_t'', as_dir = ''in'', as_role = None\<rparr>]\<rparr>
     [(''num'', VInt 10)] False Returns
   = Some (Inr \<lparr>templatized_kernel_name = ''awkward_sort'', spec_name = ''awkward_sort_int64'',
                 spec_args = [\<lparr>arg_name = ''x'', arg_typename = ''int64_t'',
                               arg_direction = ''in'', arg_role = ''default''\<rparr>],
                 tests = []\<rparr>)"
proof -
  have "''awkward_sort'' \<in> set no_role_kernels" by (simp add: no_role_kernels_def)
  from no_role_kernels_have_no_tests [OF this] show ?thesis by (simp add: make_args_def)
qed

section \<open>The fallback of the fixture key\<close>

text \<open>
  The first half of claim C6: when the key of a role group is not in the corpus and the
  key without its last character is, the argument is bound from the data of the shortened
  key, which also replaces the prefix of the role. And when neither is in the corpus at
  the first argument that has a role, generation fails.
\<close>

lemma singular_key_fallback:
  assumes "grp \<notin> set (dict_keys testdata)"
    and "slice_to grp (- 1) \<in> set (dict_keys testdata)"
  shows "choose_pseudogroup testdata grp pseudogroup = Some (slice_to grp (- 1))"
  using assms by (simp add: choose_pseudogroup_def)

lemma singular_key_binds:
  assumes "arg_role arg \<noteq> ''default''"
    and "slice_to (arg_role arg) (py_find (arg_role arg) CHR ''-'') \<notin> set (dict_keys testdata)"
    and "slice_to (slice_to (arg_role arg) (py_find (arg_role arg) CHR ''-'')) (- 1)
           \<in> set (dict_keys testdata)"
    and "role_values testdata
           (slice_to (slice_to (arg_role arg) (py_find (arg_role arg) CHR ''-'')) (- 1))
           (slice_to (slice_to (arg_role arg) (py_find (arg_role arg) CHR ''-'')) (- 1)
              @ slice_from (arg_role arg) (py_find (arg_role arg) CHR ''-'')) = Inr vals"
  shows "bind_args testdata [arg] [] [] 0 pseudogroup
           = Inr ([(slice_to (arg_role arg) (py_find (arg_role arg) CHR ''-''), [arg_name arg])],
                  [(arg_name arg, vals)])"
  using assms by (simp add: Let_def singular_key_fallback)

lemma missing_key_first_argument:
  assumes "arg_role arg \<noteq> ''default''"
    and "slice_to (arg_role arg) (py_find (arg_role arg) CHR ''-'') \<notin> set (dict_keys testdata)"
    and "slice_to (slice_to (arg_role arg) (py_find (arg_role arg) CHR ''-'')) (- 1)
           \<notin> set (dict_keys testdata)"
  shows "bind_args testdata (arg # args) instancedict funcpassdict count None
           = Inl UnboundLocalError"
  using assms by (simp add: Let_def choose_pseudogroup_def)

text \<open>
  Claim C6, second half: when neither the key of a role group nor the key without its last
  character is in the fixture corpus, generation fails with an error. The code does so
  only while no earlier argument has set \<^verbatim>\<open>pseudogroup\<close>. With the corpus
  \<^verbatim>\<open>{"foo": [{"foo-x": 1}]}\<close> and the arguments \<^verbatim>\<open>a\<close> of role \<^verbatim>\<open>foo-x\<close> and \<^verbatim>\<open>b\<close> of role
  \<^verbatim>\<open>bar-x\<close>, the group \<^verbatim>\<open>bar\<close> has no fixture data, and \<^verbatim>\<open>b\<close> is bound from the data
  of \<^verbatim>\<open>foo\<close> without any error; with the two arguments in the other order the same
  corpus gives \<^verbatim>\<open>UnboundLocalError\<close>.
\<close>

theorem stale_pseudogroup:
  "gettests
     [\<lparr>arg_name = ''a'', arg_typename = ''int64_t'', arg_direction = ''in'', arg_role = ''foo-x''\<rparr>,
      \<lparr>arg_name = ''b'', arg_typename = ''int64_t'', arg_direction = ''in'', arg_role = ''bar-x''\<rparr>]
     [(''foo'', VList [VObj [(''foo-x'', VInt 1)]])] Returns
   = Some (Inr [\<lparr>inargs = [(''a'', VInt 1), (''b'', VInt 1)], outargs = Some [], success = True\<rparr>])
   \<and> gettests
     [\<lparr>arg_name = ''b'', arg_typename = ''int64_t'', arg_direction = ''in'', arg_role = ''bar-x''\<rparr>,
      \<lparr>arg_name = ''a'', arg_typename = ''int64_t'', arg_direction = ''in'', arg_role = ''foo-x''\<rparr>]
     [(''foo'', VList [VObj [(''foo-x'', VInt 1)]])] Returns
   = Some (Inl UnboundLocalError)"
  by code_simp


section \<open>The range validator\<close>











section \<open>The record of a domain error\<close>

lemma getitem_Inr: "getitem d k = Inr v \<longleftrightarrow> map_of d k = Some v"
  by (simp add: getitem_def split: option.splits)

lemma getdummyvalue_Inr:
  "getdummyvalue typename n = Inr d \<longleftrightarrow>
   (\<exists>tv. gettypeval typename = Inr tv \<and> d = VList (replicate n tv))"
  by (auto simp: getdummyvalue_def bind_err_def split: sum.splits)

lemma failure_args_lookup:
  assumes "failure_args args temp acc = Inr intests" and "distinct (map arg_name args)"
  shows "(\<forall>arg\<in>set args. \<exists>v. map_of temp (arg_name arg) = Some v \<and>
            (if arg_direction arg = ''out''
             then \<exists>n tv. py_len v = Inr n \<and> gettypeval (arg_typename arg) = Inr tv
                    \<and> map_of intests (arg_name arg) = Some (VList (replicate n tv))
             else map_of intests (arg_name arg) = Some v))
       \<and> (\<forall>k. k \<notin> arg_name ` set args \<longrightarrow> map_of intests k = map_of acc k)"
  using assms
proof (induction args arbitrary: acc)
  case Nil
  then show ?case by simp
next
  case (Cons arg args)
  from Cons.prems(1) obtain v where v: "map_of temp (arg_name arg) = Some v"
    by (auto simp: getitem_def split: option.splits)
  from Cons.prems(2) have dist: "distinct (map arg_name args)"
    and fresh: "arg_name arg \<notin> arg_name ` set args" by auto
  show ?case
  proof (cases "arg_direction arg = ''out''")
    case True
    with Cons.prems(1) v obtain n tv where n: "py_len v = Inr n"
      and tv: "gettypeval (arg_typename arg) = Inr tv"
      and rest: "failure_args args temp (AList.update (arg_name arg) (VList (replicate n tv)) acc) = Inr intests"
      by (auto simp: getitem_def getdummyvalue_Inr split: sum.splits)
    from Cons.IH [OF rest dist] fresh show ?thesis
      using v True n tv by (auto simp: update_conv')
  next
    case False
    with Cons.prems(1) v have
      rest: "failure_args args temp (AList.update (arg_name arg) v acc) = Inr intests"
      by (auto simp: getitem_def)
    from Cons.IH [OF rest dist] fresh show ?thesis
      using v False by (auto simp: update_conv')
  qed
qed

text \<open>
  Claim C3, as the code has it. When the reference callable raises the domain error, the
  test case has \<open>success = False\<close> and no \<open>outargs\<close>. Each input argument is recorded
  with the value that its binding holds after the call, and each output argument is
  recorded in \<open>inargs\<close> as a list of placeholders only, as long as its accumulator is
  after the call. The values are those given, and the lengths those of the accumulators
  handed in, when the callable has raised without changing its arguments.
\<close>

theorem domain_error_record:
  assumes "funcPy origtemp = Raises ValueError temp"
    and "distinct (map arg_name args)"
    and "failure_args args temp [] = Inr intests"
  shows "execute args funcPy origtemp
           = Some (validate args \<lparr>inargs = intests, outargs = None, success = False\<rparr>)
       \<and> (\<forall>arg\<in>set args. \<exists>v. map_of temp (arg_name arg) = Some v \<and>
            (if arg_direction arg = ''out''
             then \<exists>n tv. py_len v = Inr n \<and> gettypeval (arg_typename arg) = Inr tv
                    \<and> map_of intests (arg_name arg) = Some (VList (replicate n tv))
             else map_of intests (arg_name arg) = Some v))"
  using assms(1,3) failure_args_lookup [OF assms(3,2)]
  by (simp add: execute_def handle_ValueError_def)

theorem domain_error_record_witness:
  "execute
     [\<lparr>arg_name = ''x'', arg_typename = ''List[int64_t]'', arg_direction = ''in'',
       arg_role = ''default''\<rparr>,
      \<lparr>arg_name = ''y'', arg_typename = ''List[int64_t]'', arg_direction = ''out'',
       arg_role = ''default''\<rparr>]
     mutates_then_raises [(''x'', VList [VInt 1, VInt 2]), (''y'', VDict [])]
   = Some (validate
       [\<lparr>arg_name = ''x'', arg_typename = ''List[int64_t]'', arg_direction = ''in'',
         arg_role = ''default''\<rparr>,
        \<lparr>arg_name = ''y'', arg_typename = ''List[int64_t]'', arg_direction = ''out'',
         arg_role = ''default''\<rparr>]
       \<lparr>inargs = [(''x'', VList [VInt 99, VInt 2]), (''y'', VList [VInt 123])],
        outargs = None, success = False\<rparr>)"
proof -
  let ?args = "[\<lparr>arg_name = ''x'', arg_typename = ''List[int64_t]'', arg_direction = ''in'',
       arg_role = ''default''\<rparr>,
      \<lparr>arg_name = ''y'', arg_typename = ''List[int64_t]'', arg_direction = ''out'',
       arg_role = ''default''\<rparr>]"
  let ?temp = "[(''x'', VList [VInt 99, VInt 2]), (''y'', VDict [(0, VInt 7)])]"
  have call: "mutates_then_raises [(''x'', VList [VInt 1, VInt 2]), (''y'', VDict [])]
                = Raises ValueError ?temp"
    by (simp add: mutates_then_raises_def)
  have names: "distinct (map arg_name ?args)" by simp
  have handler: "failure_args ?args ?temp []
                   = Inr [(''x'', VList [VInt 99, VInt 2]), (''y'', VList [VInt 123])]"
    by code_simp
  from domain_error_record
         [of mutates_then_raises "[(''x'', VList [VInt 1, VInt 2]), (''y'', VDict [])]"
             ?temp ?args, OF call names handler]
  show ?thesis by blast
qed

text \<open>
  Claim C3 as it is stated fails at this callable: the input \<^verbatim>\<open>x\<close>, given as \<^verbatim>\<open>[1, 2]\<close>,
  is recorded as \<^verbatim>\<open>[99, 2]\<close>, and the output \<^verbatim>\<open>y\<close>, handed in as an accumulator of length
  0, is recorded with one placeholder.
\<close>

theorem domain_error_record_counterexample:
  "execute
     [\<lparr>arg_name = ''x'', arg_typename = ''List[int64_t]'', arg_direction = ''in'',
       arg_role = ''default''\<rparr>,
      \<lparr>arg_name = ''y'', arg_typename = ''List[int64_t]'', arg_direction = ''out'',
       arg_role = ''default''\<rparr>]
     mutates_then_raises [(''x'', VList [VInt 1, VInt 2]), (''y'', VDict [])]
   = Some (Inr (Some \<lparr>inargs = [(''x'', VList [VInt 99, VInt 2]), (''y'', VList [VInt 123])],
                       outargs = None, success = False\<rparr>))
   \<and> VList [VInt 99, VInt 2] \<noteq> VList [VInt 1, VInt 2]
   \<and> py_len (VDict []) = Inr 0
   \<and> py_len (VList [VInt 123]) = Inr 1"
  by code_simp

section \<open>What a retained test case has passed\<close>

lemma validate_Some:
  "validate args td = Inr (Some tc) \<longleftrightarrow>
   tc = td \<and> typevalidates (inargs td) args = Inr True \<and> validateoverflow args td = Inr True"
  by (auto simp: validate_def split: sum.splits bool.splits)

lemma handle_ValueError_Some:
  "handle_ValueError args temp intests = Inr (Some tc) \<Longrightarrow>
   typevalidates (inargs tc) args = Inr True \<and> validateoverflow args tc = Inr True"
  by (auto simp: handle_ValueError_def validate_Some split: sum.splits)

lemma execute_Some:
  assumes "execute args funcPy origtemp = Some (Inr (Some tc))"
  shows "typevalidates (inargs tc) args = Inr True \<and> validateoverflow args tc = Inr True"
proof (cases "funcPy origtemp")
  case (Returns temp)
  with assms show ?thesis
    by (auto simp: execute_def validate_Some dest: handle_ValueError_Some
             split: option.splits sum.splits if_splits)
next
  case (Raises e temp)
  with assms show ?thesis
    by (auto simp: execute_def dest: handle_ValueError_Some split: if_splits)
next
  case Hangs
  with assms show ?thesis by (simp add: execute_def)
qed

lemma gettests_loop_retained:
  assumes "gettests_loop args funcPy instancedict xs allvals = Some (Inr ts)"
    and "tc \<in> set ts"
  shows "tc \<in> set allvals
       \<or> (typevalidates (inargs tc) args = Inr True \<and> validateoverflow args tc = Inr True)"
  using assms
proof (induction xs arbitrary: allvals)
  case Nil
  then show ?case by simp
next
  case (Cons x xs)
  from Cons.prems(1) obtain origtemp r where
    ot: "make_origtemp instancedict (zip (map fst instancedict) x) [] = Inr origtemp"
    and ex: "execute args funcPy origtemp = Some (Inr r)"
    by (auto split: sum.splits option.splits)
  show ?case
  proof (cases r)
    case None
    with Cons.prems ot ex have "gettests_loop args funcPy instancedict xs allvals = Some (Inr ts)"
      by simp
    from Cons.IH [OF this Cons.prems(2)] show ?thesis .
  next
    case (Some td)
    with Cons.prems ot ex have
      "gettests_loop args funcPy instancedict xs (allvals @ [td]) = Some (Inr ts)"
      by simp
    from Cons.IH [OF this Cons.prems(2)] execute_Some [of args funcPy origtemp td] ex Some
    show ?thesis by auto
  qed
qed

lemma gettests_retained:
  assumes "gettests args testdata funcPy = Some (Inr ts)" and "tc \<in> set ts"
  shows "typevalidates (inargs tc) args = Inr True \<and> validateoverflow args tc = Inr True"
proof -
  from assms(1) obtain instancedict xs where
    "gettests_loop args funcPy instancedict xs [] = Some (Inr ts)"
    by (auto simp: gettests_def split: sum.splits prod.splits)
  from gettests_loop_retained [OF this assms(2)] show ?thesis by simp
qed

lemma typevalidates_True:
  assumes "typevalidates testdict args = Inr True" and "arg \<in> set args"
  shows "\<exists>v typeval. map_of testdict (arg_name arg) = Some v
           \<and> gettypeval (arg_typename arg) = Inr typeval
           \<and> (case v of VList [] \<Rightarrow> False
                | VList (x # xs) \<Rightarrow> py_isinstance_of x typeval
                | _ \<Rightarrow> py_isinstance_of v typeval)"
  using assms
proof (induction args)
  case Nil
  then show ?case by simp
next
  case (Cons a args)
  from Cons.prems(1) obtain v where v: "map_of testdict (arg_name a) = Some v"
    by (auto simp: getitem_def split: option.splits)
  from Cons.prems(1) v have
    here: "\<exists>typeval. gettypeval (arg_typename a) = Inr typeval
           \<and> (case v of VList [] \<Rightarrow> False
                | VList (x # xs) \<Rightarrow> py_isinstance_of x typeval
                | _ \<Rightarrow> py_isinstance_of v typeval)"
    and rest: "typevalidates testdict args = Inr True"
    by (auto simp: getitem_def split: pyval.splits list.splits sum.splits if_splits)
  show ?case
  proof (cases "arg = a")
    case True
    with v here show ?thesis by auto
  next
    case False
    with Cons.prems(2) have "arg \<in> set args" by simp
    from Cons.IH [OF rest this] show ?thesis .
  qed
qed

section \<open>Unrecognized type descriptors\<close>








section \<open>The values of a retained test case\<close>

lemma any_lt_zero_False:
  "any_lt_zero ns = Inr False \<longleftrightarrow> (\<forall>n\<in>set ns. py_lt_zero n = Inr False)"
  by (induction ns) (auto split: sum.splits if_splits)

lemma any_negative_False:
  "any_negative v = Inr False \<longleftrightarrow>
   (\<exists>ns. py_iter v = Inr ns \<and> (\<forall>n\<in>set ns. py_lt_zero n = Inr False))"
  by (auto simp: any_negative_def bind_err_def any_lt_zero_False split: sum.splits)

lemma validateoverflow_loop_False:
  "validateoverflow_loop args tc False \<noteq> Inr True"
  by (induction args) (auto simp: bind_err_def split: sum.splits bool.splits option.splits)

lemma validateoverflow_loop_True:
  assumes "validateoverflow_loop args tc flag = Inr True" and "arg \<in> set args"
    and "py_in ''uint'' (arg_typename arg)"
  shows "(\<exists>v. map_of (inargs tc) (arg_name arg) = Some v \<and> any_negative v = Inr False)
       \<and> (\<forall>outs ov. outargs tc = Some outs \<longrightarrow> map_of outs (arg_name arg) = Some ov
             \<longrightarrow> any_negative ov = Inr False)"
  using assms(1,2)
proof (induction args arbitrary: flag)
  case Nil
  then show ?case by simp
next
  case (Cons a args)
  show ?case
  proof (cases "arg = a")
    case True
    with Cons.prems(1) assms(3) show ?thesis
      using validateoverflow_loop_False [of args tc]
      by (auto simp: bind_err_def getitem_def split: sum.splits bool.splits option.splits)
  next
    case False
    with Cons.prems(2) have mem: "arg \<in> set args" by simp
    from Cons.prems(1) obtain flag' where "validateoverflow_loop args tc flag' = Inr True"
      by (auto simp: bind_err_def split: sum.splits bool.splits option.splits if_splits)
    from Cons.IH [OF this mem] show ?thesis .
  qed
qed

text \<open>
  Claim C2, as the code has it. For every test case retained in the list of tests and
  every argument, the value in \<open>inargs\<close> has passed the type validator: a list is not
  empty and its first element has the runtime type of the placeholder of the declared
  type, any other value has that type itself (a \<^verbatim>\<open>bool\<close> counts as an \<^verbatim>\<open>int\<close>). For an
  argument whose type name contains \<^verbatim>\<open>uint\<close>, no element of the value in \<open>inargs\<close>, and
  none of the value in \<open>outargs\<close> when there is one, is less than zero. The elements of a
  list after the first, the values in \<open>outargs\<close> and the bit width are not checked.
\<close>

theorem retained_tests_validated:
  assumes "gettests args testdata funcPy = Some (Inr ts)" and "tc \<in> set ts"
    and "arg \<in> set args"
  shows "(\<exists>v typeval. map_of (inargs tc) (arg_name arg) = Some v
            \<and> gettypeval (arg_typename arg) = Inr typeval
            \<and> (case v of VList [] \<Rightarrow> False
                 | VList (x # xs) \<Rightarrow> py_isinstance_of x typeval
                 | _ \<Rightarrow> py_isinstance_of v typeval))
       \<and> (py_in ''uint'' (arg_typename arg) \<longrightarrow>
            (\<exists>v ns. map_of (inargs tc) (arg_name arg) = Some v \<and> py_iter v = Inr ns
                \<and> (\<forall>n\<in>set ns. py_lt_zero n = Inr False))
            \<and> (\<forall>outs ov. outargs tc = Some outs \<longrightarrow> map_of outs (arg_name arg) = Some ov
                \<longrightarrow> (\<exists>ns. py_iter ov = Inr ns \<and> (\<forall>n\<in>set ns. py_lt_zero n = Inr False))))"
proof -
  from gettests_retained [OF assms(1,2)] have
    t: "typevalidates (inargs tc) args = Inr True"
    and o: "validateoverflow_loop args tc True = Inr True"
    by (simp_all add: validateoverflow_def)
  show ?thesis
    using typevalidates_True [OF t assms(3)] validateoverflow_loop_True [OF o assms(3)]
    by (simp add: any_negative_False)
qed

theorem retained_tests_validated_witness:
  "gettypeval ''List[uint8_t]'' = Inr (VInt 123)
   \<and> py_lt_zero (VInt 1) = Inr False \<and> py_lt_zero (VInt 2) = Inr False"
proof -
  let ?arg = "\<lparr>arg_name = ''x'', arg_typename = ''List[uint8_t]'', arg_direction = ''in'',
       arg_role = ''default''\<rparr>"
  let ?tc = "\<lparr>inargs = [(''x'', VList [VInt 1, VInt 2])], outargs = Some [], success = True\<rparr>"
  have run: "gettests [?arg] [(''num'', VList [VInt 1, VInt 2])] Returns = Some (Inr [?tc])"
    by code_simp
  have tc: "?tc \<in> set [?tc]" by simp
  have mem: "?arg \<in> set [?arg]" by simp
  have uint: "py_in ''uint'' (arg_typename ?arg)" by code_simp
  have tv: "gettypeval ''List[uint8_t]'' = Inr (VInt 123)" by code_simp
  from retained_tests_validated [OF run tc mem] uint tv show ?thesis by auto
qed

text \<open>
  Claim C2 as it is stated fails here: the retained test case binds the argument \<^verbatim>\<open>x\<close> of
  type \<^verbatim>\<open>List[uint8_t]\<close> to a list with the element 1000, which is beyond 8 bits, and with
  the float 0.5, which has not the type of the placeholder.
\<close>

theorem retained_tests_counterexample:
  "gettests
     [\<lparr>arg_name = ''x'', arg_typename = ''List[uint8_t]'', arg_direction = ''in'',
       arg_role = ''default''\<rparr>]
     [(''num'', VList [VInt 1, VInt 1000, VFloat (Finite (1 / 2))])] Returns
   = Some (Inr [\<lparr>inargs = [(''x'', VList [VInt 1, VInt 1000, VFloat (Finite (1 / 2))])],
                 outargs = Some [], success = True\<rparr>])
   \<and> gettypeval ''List[uint8_t]'' = Inr (VInt 123)
   \<and> \<not> py_isinstance_of (VFloat (Finite (1 / 2))) (VInt 123)
   \<and> np_iinfo (gettypename ''List[uint8_t]'') = Inr (0, 255)
   \<and> \<not> lies_within 0 255 (VInt 1000)"
  by code_simp

section \<open>Kernels with default roles only\<close>

lemma digit_char_inj:
  assumes "d < 10" "d' < 10" "digit_char d = digit_char d'"
  shows "d = d'"
proof -
  from assms(3) have "of_char (char_of (48 + d) :: char) = (of_char (char_of (48 + d') :: char) :: nat)"
    by (simp add: digit_char_def)
  then have "(48 + d) mod 256 = (48 + d') mod 256" by simp
  with assms(1,2) show ?thesis by simp
qed

lemma str_nat_not_Nil: "str_nat n \<noteq> []"
  by (subst str_nat.simps) simp

lemma str_nat_inj: "str_nat m = str_nat n \<Longrightarrow> m = n"
proof (induction m arbitrary: n rule: str_nat.induct)
  case (1 m)
  show ?case
  proof (cases "m < 10")
    case m: True
    show ?thesis
    proof (cases "n < 10")
      case True
      with m "1.prems" show ?thesis
        by (subst (asm) (1 2) str_nat.simps) (auto dest: digit_char_inj)
    next
      case False
      with m "1.prems" str_nat_not_Nil [of "n div 10"] show ?thesis
        by (subst (asm) (1 2) str_nat.simps) (auto simp: Cons_eq_append_conv)
    qed
  next
    case m: False
    show ?thesis
    proof (cases "n < 10")
      case True
      with m "1.prems" str_nat_not_Nil [of "m div 10"] show ?thesis
        by (subst (asm) (1 2) str_nat.simps) (auto simp: append_eq_Cons_conv)
    next
      case False
      with m "1.prems" have eq: "str_nat (m div 10) = str_nat (n div 10)"
        and d: "digit_char (m mod 10) = digit_char (n mod 10)"
        by (subst (asm) (1 2) str_nat.simps, simp)+
      from "1.IH" [OF m eq] have "m div 10 = n div 10" .
      moreover have "m mod 10 = n mod 10"
        by (rule digit_char_inj [OF _ _ d]) simp_all
      ultimately show ?thesis by (metis div_mult_mod_eq)
    qed
  qed
qed

lemma in_set_update:
  "p \<in> set (AList.update k v al) \<Longrightarrow> p = (k, v) \<or> p \<in> set al"
  by (induction al) (auto split: if_splits)

lemma length_itertools_product:
  "length (itertools_product pools) = prod_list (map length pools)"
  by (induction pools) (simp_all add: length_concat comp_def sum_list_triv)

lemma prod_list_ones: "\<forall>p\<in>set pools. length p = Suc 0 \<Longrightarrow> prod_list (map length pools) = Suc 0"
  by (induction pools) simp_all

lemma singletons_update:
  assumes "singletons instancedict funcpassdict"
  shows "singletons (AList.update g [n] instancedict) (AList.update n [v] funcpassdict)"
  unfolding singletons_def
proof
  fix p assume "p \<in> set (AList.update g [n] instancedict)"
  then have "p = (g, [n]) \<or> p \<in> set instancedict" by (rule in_set_update)
  then show "\<exists>n' v'. snd p = [n'] \<and> map_of (AList.update n [v] funcpassdict) n' = Some [v']"
  proof
    assume "p = (g, [n])"
    then show ?thesis by (simp add: update_conv')
  next
    assume "p \<in> set instancedict"
    with assms obtain n' v' where n': "snd p = [n']" "map_of funcpassdict n' = Some [v']"
      unfolding singletons_def by blast
    show ?thesis
    proof (cases "n' = n")
      case True
      with n' show ?thesis by (simp add: update_conv')
    next
      case False
      with n' show ?thesis by (simp add: update_conv')
    qed
  qed
qed

lemma bind_args_default:
  assumes "\<forall>arg\<in>set args. arg_role arg = ''default''"
    and "(\<exists>arg\<in>set args. arg_direction arg \<noteq> ''out'') \<longrightarrow> map_of testdata ''num'' \<noteq> None"
    and "fst ` set instancedict \<subseteq> str_nat ` {..<count}"
    and "singletons instancedict funcpassdict"
  shows "\<exists>instancedict' funcpassdict'.
           bind_args testdata args instancedict funcpassdict count pseudogroup
             = Inr (instancedict', funcpassdict')
           \<and> singletons instancedict' funcpassdict'"
  using assms
proof (induction args arbitrary: instancedict funcpassdict count)
  case Nil
  then show ?case by simp
next
  case (Cons arg args)
  have role: "arg_role arg = ''default''" using Cons.prems(1) by simp
  have fresh: "str_nat count \<notin> set (map fst instancedict)"
  proof
    assume "str_nat count \<in> set (map fst instancedict)"
    then have "str_nat count \<in> str_nat ` {..<count}" using Cons.prems(3) by auto
    then obtain i where "i < count" "str_nat count = str_nat i" by auto
    then show False using str_nat_inj [of count i] by simp
  qed
  have keys: "fst ` set (AList.update (str_nat count) [arg_name arg] instancedict)
                \<subseteq> str_nat ` {..<count + 1}"
  proof
    fix g assume "g \<in> fst ` set (AList.update (str_nat count) [arg_name arg] instancedict)"
    then obtain p where p: "p \<in> set (AList.update (str_nat count) [arg_name arg] instancedict)"
      and g: "g = fst p" by auto
    from p have "p = (str_nat count, [arg_name arg]) \<or> p \<in> set instancedict"
      by (rule in_set_update)
    then show "g \<in> str_nat ` {..<count + 1}"
    proof
      assume "p = (str_nat count, [arg_name arg])"
      with g show ?thesis by simp
    next
      assume "p \<in> set instancedict"
      with g have "g \<in> fst ` set instancedict" by simp
      with Cons.prems(3) have "g \<in> str_nat ` {..<count}" by auto
      then show ?thesis by auto
    qed
  qed
  have rest1: "\<forall>a\<in>set args. arg_role a = ''default''" using Cons.prems(1) by simp
  have rest2: "(\<exists>a\<in>set args. arg_direction a \<noteq> ''out'') \<longrightarrow> map_of testdata ''num'' \<noteq> None"
    using Cons.prems(2) by simp
  note IH = Cons.IH [OF rest1 rest2 keys singletons_update [OF Cons.prems(4)]]
  show ?case
  proof (cases "arg_direction arg = ''out''")
    case True
    have "bind_args testdata (arg # args) instancedict funcpassdict count pseudogroup
        = bind_args testdata args
             (AList.update (str_nat count) [arg_name arg] instancedict)
             (AList.update (arg_name arg) [VDict []] funcpassdict)
             (count + 1) pseudogroup"
      using role fresh True by simp
    with IH [of "VDict []"] show ?thesis by simp
  next
    case False
    with Cons.prems(2) obtain num where num: "map_of testdata ''num'' = Some num" by auto
    have "bind_args testdata (arg # args) instancedict funcpassdict count pseudogroup
        = bind_args testdata args
             (AList.update (str_nat count) [arg_name arg] instancedict)
             (AList.update (arg_name arg) [num] funcpassdict)
             (count + 1) pseudogroup"
      using role fresh False num by (simp add: getitem_def)
    with IH [of num] show ?thesis by simp
  qed
qed

lemma group_instances_singleton:
  assumes "singletons instancedict funcpassdict" and "g \<in> fst ` set instancedict"
  shows "\<exists>v. group_instances instancedict funcpassdict g = Inr [[v]]"
proof -
  from assms(2) have "map_of instancedict g \<noteq> None"
    by (simp add: map_of_eq_None_iff)
  then obtain ns where ns: "map_of instancedict g = Some ns" by auto
  then have "(g, ns) \<in> set instancedict" by (rule map_of_SomeD)
  with assms(1) obtain n v where "snd (g, ns) = [n]" and v: "map_of funcpassdict n = Some [v]"
    unfolding singletons_def by blast
  then have n: "ns = [n]" by simp
  have "group_instances instancedict funcpassdict g = Inr [[v]]"
    by (simp add: group_instances_def getitem_def bind_err_def ns n v)
  then show ?thesis ..
qed

lemma mapM_singletons:
  assumes "singletons instancedict funcpassdict" and "set gs \<subseteq> fst ` set instancedict"
  shows "\<exists>pools. mapM_err (group_instances instancedict funcpassdict) gs = Inr pools
           \<and> (\<forall>p\<in>set pools. length p = Suc 0)"
  using assms(2)
proof (induction gs)
  case Nil
  then show ?case by simp
next
  case (Cons g gs)
  then have "set gs \<subseteq> fst ` set instancedict" and g: "g \<in> fst ` set instancedict" by simp_all
  with Cons.IH obtain pools where
    pools: "mapM_err (group_instances instancedict funcpassdict) gs = Inr pools"
    and one: "\<forall>p\<in>set pools. length p = Suc 0" by blast
  from group_instances_singleton [OF assms(1) g]
  obtain v where v: "group_instances instancedict funcpassdict g = Inr [[v]]" ..
  have "mapM_err (group_instances instancedict funcpassdict) (g # gs) = Inr ([[v]] # pools)"
    by (simp add: bind_err_def pools v)
  moreover have "\<forall>p\<in>set ([[v]] # pools). length p = Suc 0" using one by simp
  ultimately show ?case by blast
qed

text \<open>
  Claim C1, as the code has it. For a kernel all of whose arguments have the default
  role, the combination generator produces exactly one raw combination, whatever the
  length of the fixture \<^verbatim>\<open>num\<close>: every argument is a group of its own with one instance,
  the whole of \<^verbatim>\<open>testdata["num"]\<close> for an input and an empty accumulator for an output.
  (An input needs the key \<^verbatim>\<open>num\<close> in the corpus.)
\<close>

theorem default_roles_one_combination:
  assumes "\<forall>arg\<in>set args. arg_role arg = ''default''"
    and "(\<exists>arg\<in>set args. arg_direction arg \<noteq> ''out'') \<longrightarrow> map_of testdata ''num'' \<noteq> None"
  shows "\<exists>instancedict x. getcombinations args testdata = Inr (instancedict, [x])"
proof -
  have s0: "singletons [] []" by (simp add: singletons_def)
  have k0: "fst ` set ([] :: (string \<times> string list) list) \<subseteq> str_nat ` {..<0}" by simp
  from bind_args_default [OF assms k0 s0, of None]
  obtain instancedict funcpassdict where
    b: "bind_args testdata args [] [] 0 None = Inr (instancedict, funcpassdict)"
    and s: "singletons instancedict funcpassdict" by blast
  have "set (map fst instancedict) \<subseteq> fst ` set instancedict" by simp
  from mapM_singletons [OF s this] obtain pools where
    p: "mapM_err (group_instances instancedict funcpassdict) (map fst instancedict) = Inr pools"
    and one: "\<forall>p\<in>set pools. length p = Suc 0" by blast
  have "length (itertools_product pools) = Suc 0"
    using one by (simp add: length_itertools_product prod_list_ones)
  then obtain x where x: "itertools_product pools = [x]"
    by (cases "itertools_product pools") simp_all
  have "getcombinations args testdata = Inr (instancedict, [x])"
    by (simp add: getcombinations_def bind_err_def b p x)
  then show ?thesis by blast
qed

theorem default_roles_one_combination_witness:
  "\<exists>instancedict x.
     getcombinations
       [\<lparr>arg_name = ''x'', arg_typename = ''int64_t'', arg_direction = ''in'',
         arg_role = ''default''\<rparr>]
       [(''num'', VInt 10)] = Inr (instancedict, [x])"
proof -
  let ?args = "[\<lparr>arg_name = ''x'', arg_typename = ''int64_t'', arg_direction = ''in'',
         arg_role = ''default''\<rparr>]"
  have roles: "\<forall>arg\<in>set ?args. arg_role arg = ''default''" by simp
  have num: "(\<exists>arg\<in>set ?args. arg_direction arg \<noteq> ''out'')
               \<longrightarrow> map_of [(''num'', VInt 10)] ''num'' \<noteq> None" by simp
  from default_roles_one_combination [OF roles num] show ?thesis .
qed

text \<open>
  Claim C1 as it is stated fails here: the fixture \<^verbatim>\<open>num\<close> has three entries and there is
  one raw combination, which binds \<^verbatim>\<open>x\<close> to the whole list.
\<close>

theorem default_roles_counterexample:
  "getcombinations
     [\<lparr>arg_name = ''x'', arg_typename = ''int64_t'', arg_direction = ''in'',
       arg_role = ''default''\<rparr>,
      \<lparr>arg_name = ''y'', arg_typename = ''List[int64_t]'', arg_direction = ''out'',
       arg_role = ''default''\<rparr>]
     [(''num'', VList [VInt 1, VInt 2, VInt 3])]
   = Inr ([(''0'', [''x'']), (''1'', [''y''])], [[[VList [VInt 1, VInt 2, VInt 3]], [VDict []]]])
   \<and> length [[[VList [VInt 1, VInt 2, VInt 3]], [VDict []]]] = 1
   \<and> py_len (VList [VInt 1, VInt 2, VInt 3]) = Inr 3"
  by code_simp

section \<open>Order and determinism of the generation\<close>

lemma filter_first_occurrences:
  "filter (\<lambda>k'. k' \<notin> set (ks @ [k])) zs = filter (\<lambda>k'. k' \<notin> set ks) (filter (\<lambda>k'. k' \<noteq> k) zs)"
  by (induction zs) auto

lemma filter_known:
  "k \<in> set ks \<Longrightarrow>
   filter (\<lambda>k'. k' \<notin> set ks) (filter (\<lambda>k'. k' \<noteq> k) zs) = filter (\<lambda>k'. k' \<notin> set ks) zs"
  by (induction zs) auto

lemma keys_step:
  assumes "keys' = (if k \<in> set keys then keys else keys @ [k])"
    and "final = keys' @ filter (\<lambda>k'. k' \<notin> set keys') (first_occurrences rest)"
  shows "final = keys @ filter (\<lambda>k'. k' \<notin> set keys) (first_occurrences (k # rest))"
proof (cases "k \<in> set keys")
  case True
  with assms show ?thesis by (auto intro!: filter_cong)
next
  case False
  with assms show ?thesis by (auto intro!: filter_cong)
qed

lemma bind_args_keys:
  assumes "bind_args testdata args instancedict funcpassdict count pseudogroup
             = Inr (instancedict', funcpassdict')"
  shows "map fst instancedict'
           = map fst instancedict
             @ filter (\<lambda>k. k \<notin> set (map fst instancedict))
                 (first_occurrences (group_keys args count))"
  using assms
proof (induction args arbitrary: instancedict funcpassdict count pseudogroup)
  case Nil
  then show ?case by simp
next
  case (Cons arg args)
  show ?case
  proof (cases "arg_role arg = ''default''")
    case True
    let ?k = "str_nat count"
    from Cons.prems True have fresh: "?k \<notin> set (map fst instancedict)"
      by (auto split: if_splits)
    from Cons.prems True fresh obtain fp1 where
      rec: "bind_args testdata args (AList.update ?k [arg_name arg] instancedict) fp1
              (count + 1) pseudogroup = Inr (instancedict', funcpassdict')"
      by (auto split: if_splits sum.splits)
    have k: "map fst (AList.update ?k [arg_name arg] instancedict)
               = (if ?k \<in> set (map fst instancedict) then map fst instancedict
                  else map fst instancedict @ [?k])"
      by (rule update_keys)
    from keys_step [OF k Cons.IH [OF rec]] True show ?thesis by simp
  next
    case False
    let ?k = "slice_to (arg_role arg) (py_find (arg_role arg) CHR ''-'')"
    from Cons.prems False obtain names fp1 pg1 where
      rec: "bind_args testdata args (AList.update ?k names instancedict) fp1
              count pg1 = Inr (instancedict', funcpassdict')"
      by (auto simp: Let_def split: option.splits sum.splits)
    have k: "map fst (AList.update ?k names instancedict)
               = (if ?k \<in> set (map fst instancedict) then map fst instancedict
                  else map fst instancedict @ [?k])"
      by (rule update_keys)
    from keys_step [OF k Cons.IH [OF rec]] False show ?thesis by simp
  qed
qed

lemma gettests_loop_results:
  "gettests_loop args funcPy instancedict xs allvals = Some (Inr ts) \<longleftrightarrow>
   (\<exists>rs. list_all2 (\<lambda>x r. run_combination args funcPy instancedict x = Some (Inr r)) xs rs
         \<and> ts = allvals @ List.map_filter (\<lambda>r. r) rs)"
proof (induction xs arbitrary: allvals)
  case Nil
  then show ?case by auto
next
  case (Cons x xs)
  show ?case
  proof (cases "run_combination args funcPy instancedict x")
    case None
    then show ?thesis
      by (auto simp: run_combination_def list_all2_Cons1 split: sum.splits)
  next
    case (Some res)
    show ?thesis
    proof (cases res)
      case (Inl e)
      with Some show ?thesis
        by (auto simp: run_combination_def list_all2_Cons1 split: sum.splits)
    next
      case (Inr r)
      have step: "gettests_loop args funcPy instancedict (x # xs) allvals
          = gettests_loop args funcPy instancedict xs
              (allvals @ (case r of None \<Rightarrow> [] | Some tc \<Rightarrow> [tc]))"
        using Some Inr by (auto simp: run_combination_def split: sum.splits option.splits)
      show ?thesis
        unfolding step Cons.IH
        using Some Inr by (cases r) (auto simp: list_all2_Cons1)
    qed
  qed
qed

lemma itertools_product_product_lists: "itertools_product pools = product_lists pools"
  by (induction pools) simp_all

lemma run_combination_cong:
  assumes "\<forall>origtemp. make_origtemp instancedict (zip (map fst instancedict) x) [] = Inr origtemp
             \<longrightarrow> funcPy' origtemp = funcPy origtemp"
  shows "run_combination args funcPy' instancedict x = run_combination args funcPy instancedict x"
  using assms by (auto simp: run_combination_def execute_def split: sum.splits)

lemma getcombinations_Inr:
  assumes "getcombinations args testdata = Inr (instancedict, xs)"
  shows "\<exists>funcpassdict pools.
           bind_args testdata args [] [] 0 None = Inr (instancedict, funcpassdict)
         \<and> mapM_err (group_instances instancedict funcpassdict) (map fst instancedict) = Inr pools
         \<and> xs = itertools_product pools"
  using assms by (auto simp: getcombinations_def bind_err_def split: sum.splits)

lemma concat_map_nth:
  assumes "\<forall>y\<in>set ys. length (f y) = M" and "k < length ys * M"
  shows "concat (map f ys) ! k = f (ys ! (k div M)) ! (k mod M)"
  using assms
proof (induction ys arbitrary: k)
  case Nil
  then show ?case by simp
next
  case (Cons y ys)
  have M: "0 < M" using Cons.prems(2) by (cases M) simp_all
  have len: "length (f y) = M" using Cons.prems(1) by simp
  show ?case
  proof (cases "k < M")
    case True
    then show ?thesis by (simp add: nth_append len)
  next
    case False
    then have ge: "M \<le> k" by simp
    have less: "k - M < length ys * M" using Cons.prems(2) ge by simp
    have IH: "concat (map f ys) ! (k - M) = f (ys ! ((k - M) div M)) ! ((k - M) mod M)"
      using Cons.IH [OF _ less] Cons.prems(1) by simp
    have d: "k div M = Suc ((k - M) div M)" using ge M by (simp add: le_div_geq)
    have m: "k mod M = (k - M) mod M" using ge by (simp add: le_mod_geq)
    show ?thesis using False by (simp add: nth_append len IH d m)
  qed
qed

lemma length_concat_uniform:
  "\<forall>y\<in>set ys. length (f y) = M \<Longrightarrow> length (concat (map f ys)) = length ys * M"
  by (induction ys) simp_all

lemma itertools_product_nth_combination:
  "itertools_product pools = map (nth_combination pools) [0..<prod_list (map length pools)]"
proof (induction pools)
  case Nil
  then show ?case by simp
next
  case (Cons pool pools)
  let ?M = "prod_list (map length pools)"
  let ?f = "\<lambda>y. map ((#) y) (itertools_product pools)"
  have lenM: "length (itertools_product pools) = ?M" using Cons.IH by simp
  have uni: "\<forall>y\<in>set pool. length (?f y) = ?M" using lenM by simp
  show ?case
  proof (rule nth_equalityI)
    show "length (itertools_product (pool # pools))
            = length (map (nth_combination (pool # pools)) [0..<prod_list (map length (pool # pools))])"
      using length_concat_uniform [OF uni] by simp
  next
    fix k assume "k < length (itertools_product (pool # pools))"
    then have k: "k < length pool * ?M" using length_concat_uniform [OF uni] by simp
    then have M: "0 < ?M" by (cases ?M) simp_all
    have kd: "k div ?M < length pool" using k M by (simp add: less_mult_imp_div_less)
    have km: "k mod ?M < ?M" using M by simp
    have "itertools_product (pool # pools) ! k = ?f (pool ! (k div ?M)) ! (k mod ?M)"
      using concat_map_nth [OF uni k] by simp
    also have "\<dots> = pool ! (k div ?M) # itertools_product pools ! (k mod ?M)"
      using km lenM by simp
    also have "itertools_product pools ! (k mod ?M) = nth_combination pools (k mod ?M)"
      using km by (subst Cons.IH) simp
    finally show "itertools_product (pool # pools) ! k
        = map (nth_combination (pool # pools)) [0..<prod_list (map length (pool # pools))] ! k"
      using k by (simp add: mult.commute)
  qed
qed

lemma map_filter_append:
  "List.map_filter f (xs @ ys) = List.map_filter f xs @ List.map_filter f ys"
  by (simp add: List.map_filter_def)

lemma map_filter_picks:
  "List.map_filter (\<lambda>r. r) rs
     = map (\<lambda>k. the (rs ! k)) (filter (\<lambda>k. rs ! k \<noteq> None) [0..<length rs])"
proof (induction rs rule: rev_induct)
  case Nil
  then show ?case by simp
next
  case (snoc r rs)
  have g: "map (\<lambda>k. the ((rs @ [r']) ! k)) (filter (\<lambda>k. \<exists>y. (rs @ [r']) ! k = Some y) [0..<length rs])
             = map (\<lambda>k. the (rs ! k)) (filter (\<lambda>k. \<exists>y. rs ! k = Some y) [0..<length rs])" for r'
  proof -
    have f: "filter (\<lambda>k. \<exists>y. (rs @ [r']) ! k = Some y) [0..<length rs]
               = filter (\<lambda>k. \<exists>y. rs ! k = Some y) [0..<length rs]"
      by (rule filter_cong) (simp_all add: nth_append)
    have m: "map (\<lambda>k. the ((rs @ [r']) ! k)) (filter (\<lambda>k. \<exists>y. rs ! k = Some y) [0..<length rs])
               = map (\<lambda>k. the (rs ! k)) (filter (\<lambda>k. \<exists>y. rs ! k = Some y) [0..<length rs])"
      by (rule map_cong) (simp_all add: nth_append)
    show ?thesis unfolding f m ..
  qed
  show ?case
    by (cases r) (simp_all add: map_filter_append snoc.IH g)
qed

lemma picks_of_results:
  assumes "list_all2 (\<lambda>x r. run x = Some (Inr r)) xs rs"
    and "ts = List.map_filter (\<lambda>r. r) rs"
  shows "\<exists>picks. sorted_wrt (<) picks \<and> set picks \<subseteq> {..<length xs}
           \<and> length picks = length ts
           \<and> (\<forall>j<length ts. run (xs ! (picks ! j)) = Some (Inr (Some (ts ! j))))
           \<and> (\<forall>k<length xs. k \<notin> set picks \<longrightarrow> run (xs ! k) = Some (Inr None))"
proof -
  let ?picks = "filter (\<lambda>k. rs ! k \<noteq> None) [0..<length rs]"
  have len: "length xs = length rs" using assms(1) by (rule list_all2_lengthD)
  have nth: "run (xs ! k) = Some (Inr (rs ! k))" if "k < length xs" for k
    using assms(1) that by (simp add: list_all2_conv_all_nth)
  have ts: "ts = map (\<lambda>k. the (rs ! k)) ?picks"
    using assms(2) by (simp add: map_filter_picks)
  have s: "sorted_wrt (<) ?picks" by (rule sorted_wrt_filter) simp
  have sub: "set ?picks \<subseteq> {..<length xs}" using len by auto
  have l: "length ?picks = length ts" using ts by simp
  have kept: "run (xs ! (?picks ! j)) = Some (Inr (Some (ts ! j)))" if j: "j < length ts" for j
  proof -
    from j l have jp: "j < length ?picks" by simp
    then have mem: "?picks ! j \<in> set ?picks" by (rule nth_mem)
    then have lt: "?picks ! j < length xs" and ne: "rs ! (?picks ! j) \<noteq> None"
      using len by auto
    have "ts ! j = the (rs ! (?picks ! j))" using ts jp by simp
    with ne have "rs ! (?picks ! j) = Some (ts ! j)" by auto
    with nth [OF lt] show ?thesis by simp
  qed
  have dropped: "run (xs ! k) = Some (Inr None)" if "k < length xs" "k \<notin> set ?picks" for k
  proof -
    from that len have "rs ! k = None" by auto
    with nth [OF that(1)] show ?thesis by simp
  qed
  show ?thesis using s sub l kept dropped by blast
qed

lemma in_dict_keys: "k \<in> set (dict_keys d) \<longleftrightarrow> map_of d k \<noteq> None"
  by (simp add: dict_keys_def map_of_eq_None_iff)

lemma choose_pseudogroup_agree:
  assumes "map_of testdata' grp = map_of testdata grp"
    and "map_of testdata' (slice_to grp (- 1)) = map_of testdata (slice_to grp (- 1))"
  shows "choose_pseudogroup testdata' grp pseudogroup = choose_pseudogroup testdata grp pseudogroup"
  using assms by (simp add: choose_pseudogroup_def in_dict_keys)

lemma choose_pseudogroup_cases:
  "choose_pseudogroup testdata grp pseudogroup = Some p \<Longrightarrow>
   p = grp \<or> p = slice_to grp (- 1) \<or> pseudogroup = Some p"
  by (auto simp: choose_pseudogroup_def split: if_splits)

lemma role_values_agree:
  "map_of testdata' p = map_of testdata p \<Longrightarrow>
   role_values testdata' p role = role_values testdata p role"
  by (simp add: role_values_def getitem_def)

lemma bind_args_agree:
  assumes "\<forall>k\<in>K. map_of testdata' k = map_of testdata k"
    and "''num'' \<in> K"
    and "\<forall>arg\<in>set args. arg_role arg \<noteq> ''default'' \<longrightarrow>
           slice_to (arg_role arg) (py_find (arg_role arg) CHR ''-'') \<in> K
         \<and> slice_to (slice_to (arg_role arg) (py_find (arg_role arg) CHR ''-'')) (- 1) \<in> K"
    and "\<forall>p. pseudogroup = Some p \<longrightarrow> p \<in> K"
  shows "bind_args testdata' args instancedict funcpassdict count pseudogroup
           = bind_args testdata args instancedict funcpassdict count pseudogroup"
  using assms(3,4)
proof (induction args arbitrary: instancedict funcpassdict count pseudogroup)
  case Nil
  then show ?case by simp
next
  case (Cons arg args)
  have rest: "\<forall>a\<in>set args. arg_role a \<noteq> ''default'' \<longrightarrow>
           slice_to (arg_role a) (py_find (arg_role a) CHR ''-'') \<in> K
         \<and> slice_to (slice_to (arg_role a) (py_find (arg_role a) CHR ''-'')) (- 1) \<in> K"
    using Cons.prems(1) by simp
  show ?case
  proof (cases "arg_role arg = ''default''")
    case True
    have num: "getitem testdata' ''num'' = getitem testdata ''num''"
      using assms(1,2) by (simp add: getitem_def)
    show ?thesis
      using True num Cons.IH [OF rest Cons.prems(2)]
      by (simp split: sum.splits)
  next
    case False
    let ?grp = "slice_to (arg_role arg) (py_find (arg_role arg) CHR ''-'')"
    from Cons.prems(1) False have g: "?grp \<in> K" and g1: "slice_to ?grp (- 1) \<in> K" by simp_all
    have ch: "choose_pseudogroup testdata' ?grp pseudogroup
                = choose_pseudogroup testdata ?grp pseudogroup"
      using assms(1) g g1 by (intro choose_pseudogroup_agree) simp_all
    show ?thesis
    proof (cases "choose_pseudogroup testdata ?grp pseudogroup")
      case None
      with False ch show ?thesis by (simp add: Let_def)
    next
      case (Some p)
      from choose_pseudogroup_cases [OF Some] g g1 Cons.prems(2) have p: "p \<in> K" by auto
      then have rv: "role_values testdata' p role = role_values testdata p role" for role
        using assms(1) by (intro role_values_agree) simp
      have inv: "\<forall>q. Some p = Some q \<longrightarrow> q \<in> K" using p by simp
      show ?thesis
        using False ch Some rv Cons.IH [OF rest inv]
        by (simp add: Let_def split: sum.splits)
    qed
  qed
qed

lemma gettests_agree:
  assumes "agree_on (consulted_keys args) testdata testdata'"
  shows "gettests args testdata' funcPy = gettests args testdata funcPy"
proof -
  let ?K = "set (consulted_keys args)"
  have a: "\<forall>k\<in>?K. map_of testdata' k = map_of testdata k"
    using assms by (simp add: agree_on_def list_all_iff)
  have n: "''num'' \<in> ?K" by (simp add: consulted_keys_def)
  have r: "\<forall>arg\<in>set args. arg_role arg \<noteq> ''default'' \<longrightarrow>
           slice_to (arg_role arg) (py_find (arg_role arg) CHR ''-'') \<in> ?K
         \<and> slice_to (slice_to (arg_role arg) (py_find (arg_role arg) CHR ''-'')) (- 1) \<in> ?K"
    by (auto simp: consulted_keys_def)
  have "bind_args testdata' args [] [] 0 None = bind_args testdata args [] [] 0 None"
    by (rule bind_args_agree [OF a n r]) simp
  then show ?thesis by (simp add: gettests_def getcombinations_def)
qed

text \<open>
  Claim C9. Test generation is deterministic and ordered. A second run from the same
  arguments gives the identical list of tests whenever its corpus agrees with the first
  on the keys that the arguments consult and its callable gives the same results on the
  generated bindings, so in particular when corpus and callable are the same. The groups
  are in the order in which the arguments first declare them. The combinations are in the
  order of the cartesian product of the instances of the groups: combination number
  \<open>k\<close> takes from each group the instance whose index is the digit of \<open>k\<close> in the mixed
  radix of the numbers of instances, the first group varying slowest. The tests are the
  results of the kept combinations at strictly increasing numbers, and every other
  combination was dropped by a validator.
\<close>

theorem gettests_deterministic_order:
  assumes "gettests args testdata funcPy = Some (Inr ts)"
  shows "\<exists>instancedict funcpassdict pools xs picks.
       getcombinations args testdata = Inr (instancedict, xs)
     \<and> map fst instancedict = first_occurrences (group_keys args 0)
     \<and> mapM_err (group_instances instancedict funcpassdict) (map fst instancedict) = Inr pools
     \<and> xs = map (nth_combination pools) [0..<prod_list (map length pools)]
     \<and> sorted_wrt (<) picks \<and> set picks \<subseteq> {..<length xs} \<and> length picks = length ts
     \<and> (\<forall>j<length ts.
           run_combination args funcPy instancedict (xs ! (picks ! j)) = Some (Inr (Some (ts ! j))))
     \<and> (\<forall>k<length xs. k \<notin> set picks \<longrightarrow>
           run_combination args funcPy instancedict (xs ! k) = Some (Inr None))
     \<and> (\<forall>testdata' funcPy'.
           agree_on (consulted_keys args) testdata testdata'
           \<and> (\<forall>x\<in>set xs. \<forall>origtemp.
                 make_origtemp instancedict (zip (map fst instancedict) x) [] = Inr origtemp
                   \<longrightarrow> funcPy' origtemp = funcPy origtemp)
           \<longrightarrow> gettests args testdata' funcPy' = Some (Inr ts))"
proof -
  from assms obtain instancedict xs where
    c: "getcombinations args testdata = Inr (instancedict, xs)"
    and l: "gettests_loop args funcPy instancedict xs [] = Some (Inr ts)"
    by (auto simp: gettests_def split: sum.splits prod.splits)
  from getcombinations_Inr [OF c] obtain funcpassdict pools where
    b: "bind_args testdata args [] [] 0 None = Inr (instancedict, funcpassdict)"
    and p: "mapM_err (group_instances instancedict funcpassdict) (map fst instancedict) = Inr pools"
    and xs0: "xs = itertools_product pools" by blast
  have xs: "xs = map (nth_combination pools) [0..<prod_list (map length pools)]"
    using xs0 by (simp only: itertools_product_nth_combination)
  from bind_args_keys [OF b] have order: "map fst instancedict = first_occurrences (group_keys args 0)"
    by simp
  from l obtain rs where
    rs: "list_all2 (\<lambda>x r. run_combination args funcPy instancedict x = Some (Inr r)) xs rs"
    and ts: "ts = List.map_filter (\<lambda>r. r) rs"
    unfolding gettests_loop_results by auto
  from picks_of_results [of "run_combination args funcPy instancedict", OF rs ts]
  obtain picks where
    s: "sorted_wrt (<) picks" and sub: "set picks \<subseteq> {..<length xs}"
    and len: "length picks = length ts"
    and kept: "\<forall>j<length ts.
           run_combination args funcPy instancedict (xs ! (picks ! j)) = Some (Inr (Some (ts ! j)))"
    and dropped: "\<forall>k<length xs. k \<notin> set picks \<longrightarrow>
           run_combination args funcPy instancedict (xs ! k) = Some (Inr None)"
    by blast
  have again: "gettests args testdata' funcPy' = Some (Inr ts)"
    if a: "agree_on (consulted_keys args) testdata testdata'"
      and f: "\<forall>x\<in>set xs. \<forall>origtemp.
              make_origtemp instancedict (zip (map fst instancedict) x) [] = Inr origtemp
                \<longrightarrow> funcPy' origtemp = funcPy origtemp" for testdata' funcPy'
  proof -
    have "list_all2 (\<lambda>x r. run_combination args funcPy' instancedict x = Some (Inr r)) xs rs"
    proof (rule list.rel_mono_strong [OF rs])
      fix x r assume "x \<in> set xs" and "run_combination args funcPy instancedict x = Some (Inr r)"
      with f run_combination_cong [of instancedict x funcPy' funcPy args]
      show "run_combination args funcPy' instancedict x = Some (Inr r)" by simp
    qed
    then have "gettests_loop args funcPy' instancedict xs [] = Some (Inr ts)"
      unfolding gettests_loop_results using ts by auto
    with c have "gettests args testdata funcPy' = Some (Inr ts)" by (simp add: gettests_def)
    with gettests_agree [OF a, of funcPy'] show ?thesis by simp
  qed
  from again have again': "\<forall>testdata' funcPy'.
           agree_on (consulted_keys args) testdata testdata'
           \<and> (\<forall>x\<in>set xs. \<forall>origtemp.
                 make_origtemp instancedict (zip (map fst instancedict) x) [] = Inr origtemp
                   \<longrightarrow> funcPy' origtemp = funcPy origtemp)
           \<longrightarrow> gettests args testdata' funcPy' = Some (Inr ts)"
    by blast
  show ?thesis
  proof (intro exI conjI)
    show "getcombinations args testdata = Inr (instancedict, xs)" by (fact c)
    show "map fst instancedict = first_occurrences (group_keys args 0)" by (fact order)
    show "mapM_err (group_instances instancedict funcpassdict) (map fst instancedict) = Inr pools"
      by (fact p)
    show "xs = map (nth_combination pools) [0..<prod_list (map length pools)]" by (fact xs)
    show "sorted_wrt (<) picks" by (fact s)
    show "set picks \<subseteq> {..<length xs}" by (fact sub)
    show "length picks = length ts" by (fact len)
    show "\<forall>j<length ts.
           run_combination args funcPy instancedict (xs ! (picks ! j)) = Some (Inr (Some (ts ! j)))"
      by (fact kept)
    show "\<forall>k<length xs. k \<notin> set picks \<longrightarrow>
           run_combination args funcPy instancedict (xs ! k) = Some (Inr None)"
      by (fact dropped)
    show "\<forall>testdata' funcPy'.
           agree_on (consulted_keys args) testdata testdata'
           \<and> (\<forall>x\<in>set xs. \<forall>origtemp.
                 make_origtemp instancedict (zip (map fst instancedict) x) [] = Inr origtemp
                   \<longrightarrow> funcPy' origtemp = funcPy origtemp)
           \<longrightarrow> gettests args testdata' funcPy' = Some (Inr ts)"
      by (fact again')
  qed
qed

theorem gettests_deterministic_order_witness:
  "gettests
      [\<lparr>arg_name = ''a'', arg_typename = ''int64_t'', arg_direction = ''in'',
        arg_role = ''g-x''\<rparr>,
       \<lparr>arg_name = ''b'', arg_typename = ''int64_t'', arg_direction = ''in'',
        arg_role = ''h-y''\<rparr>]
      [(''g'', VList [VObj [(''g-x'', VInt 1)], VObj [(''g-x'', VInt 2)]]),
       (''h'', VList [VObj [(''h-y'', VInt 10)], VObj [(''h-y'', VFloat (Finite (5 / 2)))],
                     VObj [(''h-y'', VInt 20)]])]
      Returns
    = Some (Inr
      [\<lparr>inargs = [(''a'', VInt 1), (''b'', VInt 10)], outargs = Some [], success = True\<rparr>,
       \<lparr>inargs = [(''a'', VInt 1), (''b'', VInt 20)], outargs = Some [], success = True\<rparr>,
       \<lparr>inargs = [(''a'', VInt 2), (''b'', VInt 10)], outargs = Some [], success = True\<rparr>,
       \<lparr>inargs = [(''a'', VInt 2), (''b'', VInt 20)], outargs = Some [], success = True\<rparr>])
   \<and> gettests
      [\<lparr>arg_name = ''a'', arg_typename = ''int64_t'', arg_direction = ''in'',
        arg_role = ''g-x''\<rparr>,
       \<lparr>arg_name = ''b'', arg_typename = ''int64_t'', arg_direction = ''in'',
        arg_role = ''h-y''\<rparr>]
      [(''unused'', VInt 0),
       (''h'', VList [VObj [(''h-y'', VInt 10)], VObj [(''h-y'', VFloat (Finite (5 / 2)))],
                     VObj [(''h-y'', VInt 20)]]),
       (''g'', VList [VObj [(''g-x'', VInt 1)], VObj [(''g-x'', VInt 2)]])]
      returns_when_bound
    = Some (Inr
      [\<lparr>inargs = [(''a'', VInt 1), (''b'', VInt 10)], outargs = Some [], success = True\<rparr>,
       \<lparr>inargs = [(''a'', VInt 1), (''b'', VInt 20)], outargs = Some [], success = True\<rparr>,
       \<lparr>inargs = [(''a'', VInt 2), (''b'', VInt 10)], outargs = Some [], success = True\<rparr>,
       \<lparr>inargs = [(''a'', VInt 2), (''b'', VInt 20)], outargs = Some [], success = True\<rparr>])
   \<and> (\<exists>instancedict xs picks.
        getcombinations
          [\<lparr>arg_name = ''a'', arg_typename = ''int64_t'', arg_direction = ''in'',
        arg_role = ''g-x''\<rparr>,
       \<lparr>arg_name = ''b'', arg_typename = ''int64_t'', arg_direction = ''in'',
        arg_role = ''h-y''\<rparr>]
          [(''g'', VList [VObj [(''g-x'', VInt 1)], VObj [(''g-x'', VInt 2)]]),
       (''h'', VList [VObj [(''h-y'', VInt 10)], VObj [(''h-y'', VFloat (Finite (5 / 2)))],
                     VObj [(''h-y'', VInt 20)]])]
        = Inr (instancedict, xs)
      \<and> xs = [[[VInt 1], [VInt 10]], [[VInt 1], [VFloat (Finite (5 / 2))]], [[VInt 1], [VInt 20]],
       [[VInt 2], [VInt 10]], [[VInt 2], [VFloat (Finite (5 / 2))]], [[VInt 2], [VInt 20]]]
      \<and> map fst instancedict = [''g'', ''h'']
      \<and> sorted_wrt (<) picks \<and> length picks = 4
      \<and> run_combination
          [\<lparr>arg_name = ''a'', arg_typename = ''int64_t'', arg_direction = ''in'',
        arg_role = ''g-x''\<rparr>,
       \<lparr>arg_name = ''b'', arg_typename = ''int64_t'', arg_direction = ''in'',
        arg_role = ''h-y''\<rparr>]
          Returns instancedict (xs ! (picks ! 0)) = Some (Inr (Some \<lparr>inargs = [(''a'', VInt 1), (''b'', VInt 10)], outargs = Some [], success = True\<rparr>))
      \<and> run_combination
          [\<lparr>arg_name = ''a'', arg_typename = ''int64_t'', arg_direction = ''in'',
        arg_role = ''g-x''\<rparr>,
       \<lparr>arg_name = ''b'', arg_typename = ''int64_t'', arg_direction = ''in'',
        arg_role = ''h-y''\<rparr>]
          Returns instancedict (xs ! (picks ! 1)) = Some (Inr (Some \<lparr>inargs = [(''a'', VInt 1), (''b'', VInt 20)], outargs = Some [], success = True\<rparr>))
      \<and> run_combination
          [\<lparr>arg_name = ''a'', arg_typename = ''int64_t'', arg_direction = ''in'',
        arg_role = ''g-x''\<rparr>,
       \<lparr>arg_name = ''b'', arg_typename = ''int64_t'', arg_direction = ''in'',
        arg_role = ''h-y''\<rparr>]
          Returns instancedict (xs ! (picks ! 2)) = Some (Inr (Some \<lparr>inargs = [(''a'', VInt 2), (''b'', VInt 10)], outargs = Some [], success = True\<rparr>))
      \<and> run_combination
          [\<lparr>arg_name = ''a'', arg_typename = ''int64_t'', arg_direction = ''in'',
        arg_role = ''g-x''\<rparr>,
       \<lparr>arg_name = ''b'', arg_typename = ''int64_t'', arg_direction = ''in'',
        arg_role = ''h-y''\<rparr>]
          Returns instancedict (xs ! (picks ! 3)) = Some (Inr (Some \<lparr>inargs = [(''a'', VInt 2), (''b'', VInt 20)], outargs = Some [], success = True\<rparr>)))"
proof -
  let ?args = "[\<lparr>arg_name = ''a'', arg_typename = ''int64_t'', arg_direction = ''in'',
        arg_role = ''g-x''\<rparr>,
       \<lparr>arg_name = ''b'', arg_typename = ''int64_t'', arg_direction = ''in'',
        arg_role = ''h-y''\<rparr>]"
  let ?td = "[(''g'', VList [VObj [(''g-x'', VInt 1)], VObj [(''g-x'', VInt 2)]]),
       (''h'', VList [VObj [(''h-y'', VInt 10)], VObj [(''h-y'', VFloat (Finite (5 / 2)))],
                     VObj [(''h-y'', VInt 20)]])]"
  let ?td' = "[(''unused'', VInt 0),
       (''h'', VList [VObj [(''h-y'', VInt 10)], VObj [(''h-y'', VFloat (Finite (5 / 2)))],
                     VObj [(''h-y'', VInt 20)]]),
       (''g'', VList [VObj [(''g-x'', VInt 1)], VObj [(''g-x'', VInt 2)]])]"
  let ?ts = "[\<lparr>inargs = [(''a'', VInt 1), (''b'', VInt 10)], outargs = Some [], success = True\<rparr>,
       \<lparr>inargs = [(''a'', VInt 1), (''b'', VInt 20)], outargs = Some [], success = True\<rparr>,
       \<lparr>inargs = [(''a'', VInt 2), (''b'', VInt 10)], outargs = Some [], success = True\<rparr>,
       \<lparr>inargs = [(''a'', VInt 2), (''b'', VInt 20)], outargs = Some [], success = True\<rparr>]"
  let ?xs = "[[[VInt 1], [VInt 10]], [[VInt 1], [VFloat (Finite (5 / 2))]], [[VInt 1], [VInt 20]],
       [[VInt 2], [VInt 10]], [[VInt 2], [VFloat (Finite (5 / 2))]], [[VInt 2], [VInt 20]]]"
  let ?idict = "[(''g'', [''a'']), (''h'', [''b''])]"
  have run: "gettests ?args ?td Returns = Some (Inr ?ts)" by code_simp
  have comb: "getcombinations ?args ?td = Inr (?idict, ?xs)" by code_simp
  have keys: "first_occurrences (group_keys ?args 0) = [''g'', ''h'']" by code_simp
  have agree: "agree_on (consulted_keys ?args) ?td ?td'" by code_simp
  have call: "\<forall>x\<in>set ?xs. \<forall>origtemp.
                make_origtemp ?idict (zip (map fst ?idict) x) [] = Inr origtemp
                  \<longrightarrow> returns_when_bound origtemp = Returns origtemp"
    by (auto simp: getitem_def returns_when_bound_def)
  from gettests_deterministic_order [OF run] obtain instancedict funcpassdict pools xs picks where
    c: "getcombinations ?args ?td = Inr (instancedict, xs)"
    and order: "map fst instancedict = first_occurrences (group_keys ?args 0)"
    and s: "sorted_wrt (<) picks"
    and len: "length picks = length ?ts"
    and kept: "\<forall>j<length ?ts.
           run_combination ?args Returns instancedict (xs ! (picks ! j)) = Some (Inr (Some (?ts ! j)))"
    and again: "\<forall>testdata' funcPy'.
           agree_on (consulted_keys ?args) ?td testdata'
           \<and> (\<forall>x\<in>set xs. \<forall>origtemp.
                 make_origtemp instancedict (zip (map fst instancedict) x) [] = Inr origtemp
                   \<longrightarrow> funcPy' origtemp = Returns origtemp)
           \<longrightarrow> gettests ?args testdata' funcPy' = Some (Inr ?ts)"
    by blast
  from c comb have i: "instancedict = ?idict" and x: "xs = ?xs" by simp_all
  from again agree call have second: "gettests ?args ?td' returns_when_bound = Some (Inr ?ts)"
    unfolding i x by blast
  have ord: "map fst instancedict = [''g'', ''h'']" using order keys by (simp only:)
  have l4: "length picks = 4" using len by simp
  from kept have
    k0: "run_combination ?args Returns instancedict (xs ! (picks ! 0))
           = Some (Inr (Some \<lparr>inargs = [(''a'', VInt 1), (''b'', VInt 10)], outargs = Some [], success = True\<rparr>))"
    and k1: "run_combination ?args Returns instancedict (xs ! (picks ! 1))
           = Some (Inr (Some \<lparr>inargs = [(''a'', VInt 1), (''b'', VInt 20)], outargs = Some [], success = True\<rparr>))"
    and k2: "run_combination ?args Returns instancedict (xs ! (picks ! 2))
           = Some (Inr (Some \<lparr>inargs = [(''a'', VInt 2), (''b'', VInt 10)], outargs = Some [], success = True\<rparr>))"
    and k3: "run_combination ?args Returns instancedict (xs ! (picks ! 3))
           = Some (Inr (Some \<lparr>inargs = [(''a'', VInt 2), (''b'', VInt 20)], outargs = Some [], success = True\<rparr>))"
    by simp_all
  show ?thesis
  proof (intro conjI exI)
    show "gettests ?args ?td Returns = Some (Inr ?ts)" by (fact run)
    show "gettests ?args ?td' returns_when_bound = Some (Inr ?ts)" by (fact second)
    show "getcombinations ?args ?td = Inr (instancedict, xs)" by (fact c)
    show "xs = ?xs" by (fact x)
    show "map fst instancedict = [''g'', ''h'']" by (fact ord)
    show "sorted_wrt (<) picks" by (fact s)
    show "length picks = 4" by (fact l4)
    show "run_combination ?args Returns instancedict (xs ! (picks ! 0))
           = Some (Inr (Some \<lparr>inargs = [(''a'', VInt 1), (''b'', VInt 10)], outargs = Some [], success = True\<rparr>))" by (fact k0)
    show "run_combination ?args Returns instancedict (xs ! (picks ! 1))
           = Some (Inr (Some \<lparr>inargs = [(''a'', VInt 1), (''b'', VInt 20)], outargs = Some [], success = True\<rparr>))" by (fact k1)
    show "run_combination ?args Returns instancedict (xs ! (picks ! 2))
           = Some (Inr (Some \<lparr>inargs = [(''a'', VInt 2), (''b'', VInt 10)], outargs = Some [], success = True\<rparr>))" by (fact k2)
    show "run_combination ?args Returns instancedict (xs ! (picks ! 3))
           = Some (Inr (Some \<lparr>inargs = [(''a'', VInt 2), (''b'', VInt 20)], outargs = Some [], success = True\<rparr>))" by (fact k3)
  qed
qed

section \<open>The reconstruction in the executor\<close>

text \<open>
  When the reference callable has returned and the loop over the arguments ends without an
  exception, \<^verbatim>\<open>outtests\<close> holds for every output argument the dense list that
  \<^verbatim>\<open>dicttolist\<close> returns for its accumulator (the names of the arguments being
  distinct).
\<close>

lemma success_args_records:
  assumes "success_args args temp intests0 outtests0 = Some (Inr (intests, outtests))"
    and "distinct (map arg_name args)"
  shows "(\<forall>arg\<in>set args. arg_direction arg = ''out'' \<longrightarrow>
            (\<exists>v vallist. map_of temp (arg_name arg) = Some v
               \<and> dicttolist v (arg_typename arg) = Some (Inr vallist)
               \<and> map_of outtests (arg_name arg) = Some (VList vallist)))
       \<and> (\<forall>k. k \<notin> arg_name ` set args \<longrightarrow> map_of outtests k = map_of outtests0 k)"
  using assms
proof (induction args arbitrary: intests0 outtests0)
  case Nil
  then show ?case by simp
next
  case (Cons arg args)
  from Cons.prems(1) obtain v where v: "map_of temp (arg_name arg) = Some v"
    by (auto simp: getitem_def split: option.splits)
  from Cons.prems(2) have dist: "distinct (map arg_name args)"
    and fresh: "arg_name arg \<notin> arg_name ` set args" by auto
  show ?case
  proof (cases "arg_direction arg = ''out''")
    case True
    with Cons.prems(1) v obtain vallist dummy where
      d: "dicttolist v (arg_typename arg) = Some (Inr vallist)"
      and rest: "success_args args temp (AList.update (arg_name arg) dummy intests0)
                   (AList.update (arg_name arg) (VList vallist) outtests0)
                 = Some (Inr (intests, outtests))"
      by (auto simp: getitem_def split: if_splits option.splits sum.splits)
    from Cons.IH [OF rest dist] fresh show ?thesis
      using v True d by (auto simp: update_conv')
  next
    case False
    with Cons.prems(1) v have
      rest: "success_args args temp (AList.update (arg_name arg) v intests0) outtests0
               = Some (Inr (intests, outtests))"
      by (auto simp: getitem_def)
    from Cons.IH [OF rest dist] fresh show ?thesis
      using False by auto
  qed
qed

end
